theory Spec2Isabelle
  imports Complex_Main "HOL-Library.Finite_Map" "HOL-Library.Multiset"
begin

section \<open>The scene of BasicGraphicsScene.cpp\<close>

text \<open>
  The scene mirrors a graph model into graphics objects. Every object the scene
  constructs gets a fresh handle, its identity; an object held by a
  \<^verbatim>\<open>std::unique_ptr\<close> lives exactly as long as its owner holds it, so an object
  that is erased from its map, or overwritten there, is destroyed. Calls into classes
  whose code is elsewhere (the graphics objects, the dialogs, Qt) and the signals the
  scene emits are recorded, in order, in the list \<open>effects\<close>.
  Coordinates (\<^verbatim>\<open>qreal\<close>) are modelled by \<^typ>\<open>real\<close>; the only arithmetic used is
  the two operations the source applies to a label position.
\<close>

subsection \<open>Identifiers and values\<close>

type_synonym NodeId = nat
type_synonym PortIndex = nat
type_synonym handle = nat
type_synonym QString = string

datatype PortType = In | Out | PortNone

record ConnectionId =
  outNodeId :: NodeId
  outPortIndex :: PortIndex
  inNodeId :: NodeId
  inPortIndex :: PortIndex

record QPointF =
  xp :: real
  yp :: real

datatype QColor = Rgb nat nat nat

definition white :: QColor where
  "white = Rgb 255 255 255"

datatype Orientation = Horizontal | Vertical

datatype NodeGeometry = DefaultHorizontalNodeGeometry | DefaultVerticalNodeGeometry

record cesgrouprecord =
  getColumnHeaders :: "QString list"

subsection \<open>The graph model, as the scene queries it\<close>

text \<open>
  \<open>allNodeIds\<close> is the model's enumeration of its nodes, in the order the iteration
  delivers them; \<open>connections\<close> likewise enumerates the connection ids at a port.
\<close>

record AbstractGraphModel =
  allNodeIds :: "NodeId list"
  nodeData_OutPortCount :: "NodeId \<Rightarrow> nat"
  nodeData_Position :: "NodeId \<Rightarrow> QPointF"
  connections :: "NodeId \<Rightarrow> PortType \<Rightarrow> PortIndex \<Rightarrow> ConnectionId list"

subsection \<open>Objects owned by the scene\<close>

record NodeGraphicsObject =
  ngoHandle :: handle
  ngoNodeId :: NodeId

text \<open>
  A connection object carries the slots connected to its two signals:
  \<open>doubleClicked\<close> holds the connection ids whose dialog a double click opens,
  \<open>positionChanged\<close> the text items whose position the lambda of
  \<^verbatim>\<open>addTextUnderConnection\<close> updates. The slots go away with the object.
\<close>

record ConnectionGraphicsObject =
  cgoHandle :: handle
  connectionId_of :: ConnectionId
  doubleClicked :: "ConnectionId list"
  positionChanged :: "handle list"

record QGraphicsTextItem =
  toPlainText :: QString
  pos :: QPointF
  defaultTextColor :: QColor
  font :: "QString \<times> nat"

record QDialog =
  dlgHandle :: handle
  windowTitle :: QString
  isModal :: bool
  listWidget :: "QString list"

record ConnectionInfo =
  connectionId :: ConnectionId
  nodeIdOut :: NodeId
  nodeIdIn :: NodeId
  portTypeIn :: PortType
  portTypeOut :: PortType
  templateName :: QString

datatype event =
    NewNodeGraphicsObject handle NodeId
  | NewConnectionGraphicsObject handle ConnectionId
  | GrabMouse handle
  | NodeUpdate handle
  | NodeSetPos handle QPointF
  | NodeSetGeometryChanged handle
  | RecomputeSize NodeGeometry NodeId
  | NodeUpdateQWidgetEmbedPos handle
  | NodeMoveConnections handle
  | SetConnectionColor handle QColor
  | ConnectionUpdate handle
  | DialogShow handle
  | DialogClose handle
  | DialogAccept handle
  | Modified
  | NodeMoved NodeId QPointF

text \<open>
  Deleting an object that has already been deleted is undefined behaviour: a handler
  that does so has no resulting scene, and returns the error instead.
\<close>

datatype error = UseAfterFree handle

text \<open>
  The fields of the scene. \<open>dialogs\<close> is an associative container, a finite map with
  one entry per key; the order in which it is iterated is the container's own and is
  not determined by the source, so nothing here depends on it.
  \<open>textItems\<close> holds raw pointers: a handle stored there may point to a text item
  that was deleted. \<open>sceneTextItems\<close> are the text items alive on the scene
  (\<^verbatim>\<open>addItem\<close>), which is what a \<^verbatim>\<open>QPointer\<close> tests. \<open>endPointIn\<close> is the
  \<^verbatim>\<open>in()\<close> point of each connection object, which that object maintains itself.
\<close>

record scene =
  nodeGraphicsObjects :: "NodeId \<rightharpoonup> NodeGraphicsObject"
  connectionGraphicsObjects :: "ConnectionId \<rightharpoonup> ConnectionGraphicsObject"
  draftConnection :: "ConnectionGraphicsObject option"
  nodeGeometry :: NodeGeometry
  nodeDrag :: bool
  orientation :: Orientation
  m_record :: "cesgrouprecord list"
  dialogs :: "(ConnectionId, QDialog \<times> QString) fmap"
  textItems :: "ConnectionId \<rightharpoonup> handle"
  sceneTextItems :: "handle \<rightharpoonup> QGraphicsTextItem"
  endPointIn :: "handle \<Rightarrow> QPointF"
  nextHandle :: handle
  effects :: "event list"

subsection \<open>Constructing objects and emitting\<close>

text \<open>
  \<open>emit e\<close> appends \<open>e\<close> to the effects: a signal the scene emits, or a call it makes
  on an object whose class is defined elsewhere. Constructing a graphics object takes the
  next handle.
\<close>

definition emit :: "event \<Rightarrow> scene \<Rightarrow> scene" where
  "emit e s = s\<lparr>effects := effects s @ [e]\<rparr>"

definition make_NodeGraphicsObject :: "NodeId \<Rightarrow> scene \<Rightarrow> NodeGraphicsObject \<times> scene" where
  "make_NodeGraphicsObject nodeId s =
     (\<lparr>ngoHandle = nextHandle s, ngoNodeId = nodeId\<rparr>,
      emit (NewNodeGraphicsObject (nextHandle s) nodeId) (s\<lparr>nextHandle := Suc (nextHandle s)\<rparr>))"

definition make_ConnectionGraphicsObject ::
  "ConnectionId \<Rightarrow> scene \<Rightarrow> ConnectionGraphicsObject \<times> scene" where
  "make_ConnectionGraphicsObject cid s =
     (\<lparr>cgoHandle = nextHandle s, connectionId_of = cid, doubleClicked = [], positionChanged = []\<rparr>,
      emit (NewConnectionGraphicsObject (nextHandle s) cid) (s\<lparr>nextHandle := Suc (nextHandle s)\<rparr>))"

subsection \<open>Draft connection\<close>

definition makeDraftConnection :: "ConnectionId \<Rightarrow> scene \<Rightarrow> scene" where
  "makeDraftConnection incompleteConnectionId s =
     (let (obj, s1) = make_ConnectionGraphicsObject incompleteConnectionId s
      in emit (GrabMouse (cgoHandle obj)) (s1\<lparr>draftConnection := Some obj\<rparr>))"

definition resetDraftConnection :: "scene \<Rightarrow> scene" where
  "resetDraftConnection s = s\<lparr>draftConnection := None\<rparr>"

definition getRecordTemplates :: "cesgrouprecord list \<Rightarrow> scene \<Rightarrow> scene" where
  "getRecordTemplates inputRecordVector s = s\<lparr>m_record := m_record s @ inputRecordVector\<rparr>"

subsection \<open>Lookups\<close>

definition nodeGraphicsObject :: "scene \<Rightarrow> NodeId \<Rightarrow> NodeGraphicsObject option" where
  "nodeGraphicsObject s nodeId = nodeGraphicsObjects s nodeId"

definition connectionGraphicsObject :: "scene \<Rightarrow> ConnectionId \<Rightarrow> ConnectionGraphicsObject option" where
  "connectionGraphicsObject s cid = connectionGraphicsObjects s cid"

text \<open>
  \<^verbatim>\<open>getConnections\<close> visits every entry of \<open>dialogs\<close> once and appends one record
  for it. The order of the resulting vector is the iteration order of the container; the
  result is given here up to that order, as a multiset.
\<close>

definition getConnections :: "scene \<Rightarrow> ConnectionInfo multiset" where
  "getConnections s =
     image_mset (\<lambda>(cid, dialogPair).
            \<lparr>connectionId = cid, nodeIdOut = outNodeId cid, nodeIdIn = inNodeId cid,
             portTypeIn = In, portTypeOut = Out, templateName = snd dialogPair\<rparr>)
         (mset_set (fset (fset_of_fmap (dialogs s))))"

subsection \<open>Full traversal and reset\<close>

definition insertNode :: "NodeId \<Rightarrow> scene \<Rightarrow> scene" where
  "insertNode nodeId s =
     (let (obj, s1) = make_NodeGraphicsObject nodeId s
      in s1\<lparr>nodeGraphicsObjects := (nodeGraphicsObjects s1)(nodeId \<mapsto> obj)\<rparr>)"

definition insertConnection :: "ConnectionId \<Rightarrow> scene \<Rightarrow> scene" where
  "insertConnection cid s =
     (let (obj, s1) = make_ConnectionGraphicsObject cid s
      in s1\<lparr>connectionGraphicsObjects := (connectionGraphicsObjects s1)(cid \<mapsto> obj)\<rparr>)"

definition outConnections :: "AbstractGraphModel \<Rightarrow> NodeId \<Rightarrow> ConnectionId list" where
  "outConnections g nodeId =
     concat (map (\<lambda>index. connections g nodeId Out index) [0..<nodeData_OutPortCount g nodeId])"

definition insertOutConnections :: "AbstractGraphModel \<Rightarrow> NodeId \<Rightarrow> scene \<Rightarrow> scene" where
  "insertOutConnections g nodeId s =
     fold (\<lambda>index. fold insertConnection (connections g nodeId Out index))
          [0..<nodeData_OutPortCount g nodeId] s"

definition traverseGraphAndPopulateGraphicsObjects :: "AbstractGraphModel \<Rightarrow> scene \<Rightarrow> scene" where
  "traverseGraphAndPopulateGraphicsObjects g s =
     fold (insertOutConnections g) (allNodeIds g) (fold insertNode (allNodeIds g) s)"

text \<open>
  \<^verbatim>\<open>QGraphicsScene::clear()\<close> removes and deletes every item on the scene, the text
  items among them; \<open>dialogs\<close> and \<open>textItems\<close> are not touched by the reset.
\<close>

definition onModelReset :: "AbstractGraphModel \<Rightarrow> scene \<Rightarrow> scene" where
  "onModelReset g s =
     traverseGraphAndPopulateGraphicsObjects g
       (s\<lparr>connectionGraphicsObjects := Map.empty, nodeGraphicsObjects := Map.empty,
          sceneTextItems := Map.empty\<rparr>)"

definition setOrientation :: "AbstractGraphModel \<Rightarrow> Orientation \<Rightarrow> scene \<Rightarrow> scene" where
  "setOrientation g orientation' s =
     (if orientation s \<noteq> orientation' then
        onModelReset g
          (s\<lparr>orientation := orientation',
             nodeGeometry := (case orientation' of
                                Horizontal \<Rightarrow> DefaultHorizontalNodeGeometry
                              | Vertical \<Rightarrow> DefaultVerticalNodeGeometry)\<rparr>)
      else s)"

text \<open>
  The state the constructor's initialiser list sets up, then the first traversal.
  (\<^verbatim>\<open>clearScene\<close> only asks the graph model to delete its nodes; the scene changes
  through the notifications the model sends in return.)
\<close>

definition initialScene :: scene where
  "initialScene =
     \<lparr>nodeGraphicsObjects = Map.empty, connectionGraphicsObjects = Map.empty,
      draftConnection = None, nodeGeometry = DefaultHorizontalNodeGeometry,
      nodeDrag = False, orientation = Horizontal, m_record = [], dialogs = fmempty,
      textItems = Map.empty, sceneTextItems = Map.empty,
      endPointIn = (\<lambda>_. \<lparr>xp = 0, yp = 0\<rparr>), nextHandle = 0, effects = []\<rparr>"

definition BasicGraphicsScene :: "AbstractGraphModel \<Rightarrow> scene" where
  "BasicGraphicsScene g = traverseGraphAndPopulateGraphicsObjects g initialScene"

subsection \<open>Event handlers\<close>

text \<open>
  \<^verbatim>\<open>getNodeId\<close> (ConnectionIdUtils.hpp) picks the node of a connection on the given
  side; the scene only asks for the two real sides.
\<close>

definition getNodeId :: "PortType \<Rightarrow> ConnectionId \<Rightarrow> NodeId option" where
  "getNodeId portType cid =
     (case portType of In \<Rightarrow> Some (inNodeId cid) | Out \<Rightarrow> Some (outNodeId cid) | PortNone \<Rightarrow> None)"

definition updateAttachedNodes :: "ConnectionId \<Rightarrow> PortType \<Rightarrow> scene \<Rightarrow> scene" where
  "updateAttachedNodes cid portType s =
     (case Option.bind (getNodeId portType cid) (nodeGraphicsObject s) of
        Some node \<Rightarrow> emit (NodeUpdate (ngoHandle node)) s
      | None \<Rightarrow> s)"

definition removeDialog :: "ConnectionId \<Rightarrow> scene \<Rightarrow> scene" where
  "removeDialog cid s =
     (case fmlookup (dialogs s) cid of
        Some dialogPair \<Rightarrow>
          (emit (DialogClose (dlgHandle (fst dialogPair))) s)\<lparr>dialogs := fmdrop cid (dialogs s)\<rparr>
      | None \<Rightarrow> s)"

definition labelPosition :: "QPointF \<Rightarrow> QPointF" where
  "labelPosition inPoint = \<lparr>xp = xp inPoint - 50, yp = yp inPoint + 1\<rparr>"

text \<open>
  The lambda connected to \<open>positionChanged\<close>: \<open>textItemPtr\<close> is the guarded pointer
  to the text item, \<open>connectionObject\<close> the connection object that sends the signal.
\<close>

definition positionChanged_slot :: "handle \<Rightarrow> handle \<Rightarrow> scene \<Rightarrow> scene" where
  "positionChanged_slot textItemPtr connectionObject s =
     (case sceneTextItems s textItemPtr of
        Some item \<Rightarrow>
          s\<lparr>sceneTextItems := (sceneTextItems s)
               (textItemPtr \<mapsto> item\<lparr>pos := labelPosition (endPointIn s connectionObject)\<rparr>)\<rparr>
      | None \<Rightarrow> s)"

definition addTextUnderConnection :: "ConnectionId \<Rightarrow> QString \<Rightarrow> scene \<Rightarrow> scene" where
  "addTextUnderConnection cid templateText s =
     (case connectionGraphicsObjects s cid of
        Some connectionObject \<Rightarrow>
          (let textItem = nextHandle s;
               item = \<lparr>toPlainText = templateText,
                       pos = labelPosition (endPointIn s (cgoHandle connectionObject)),
                       defaultTextColor = white, font = (''Arial'', 10)\<rparr>
           in s\<lparr>nextHandle := Suc textItem,
                sceneTextItems := (sceneTextItems s)(textItem \<mapsto> item),
                textItems := (textItems s)(cid \<mapsto> textItem),
                connectionGraphicsObjects := (connectionGraphicsObjects s)
                  (cid \<mapsto> connectionObject\<lparr>positionChanged :=
                                              positionChanged connectionObject @ [textItem]\<rparr>)\<rparr>)
      | None \<Rightarrow> s)"

text \<open>
  The part of \<^verbatim>\<open>onConnectionDeleted\<close> that removes the text item: the stored pointer
  is passed to \<^verbatim>\<open>removeItem\<close> and \<^verbatim>\<open>delete\<close>. When the text item it points to has
  already been deleted (by \<^verbatim>\<open>QGraphicsScene::clear()\<close>), that is a use after free.
\<close>

definition deleteTextItem :: "ConnectionId \<Rightarrow> scene \<Rightarrow> error + scene" where
  "deleteTextItem cid s =
     (case textItems s cid of
        Some textItem \<Rightarrow>
          (if sceneTextItems s textItem = None then Inl (UseAfterFree textItem)
           else Inr (s\<lparr>sceneTextItems := (sceneTextItems s)(textItem := None),
                        textItems := (textItems s)(cid := None)\<rparr>))
      | None \<Rightarrow> Inr s)"

definition onConnectionDeleted :: "ConnectionId \<Rightarrow> scene \<Rightarrow> error + scene" where
  "onConnectionDeleted cid s =
     (case deleteTextItem cid (s\<lparr>connectionGraphicsObjects := (connectionGraphicsObjects s)(cid := None)\<rparr>) of
        Inl e \<Rightarrow> Inl e
      | Inr s2 \<Rightarrow>
          (let s3 = (case draftConnection s2 of
                       Some d \<Rightarrow> if connectionId_of d = cid then s2\<lparr>draftConnection := None\<rparr> else s2
                     | None \<Rightarrow> s2);
               s4 = updateAttachedNodes cid Out s3;
               s5 = updateAttachedNodes cid In s4;
               s6 = removeDialog cid s5
           in Inr (emit Modified s6)))"

definition onConnectionCreated :: "ConnectionId \<Rightarrow> scene \<Rightarrow> scene" where
  "onConnectionCreated cid s =
     (let (connectionObject, s1) = make_ConnectionGraphicsObject cid s;
          connectionObject' = connectionObject\<lparr>doubleClicked := doubleClicked connectionObject @ [cid]\<rparr>;
          s2 = s1\<lparr>connectionGraphicsObjects := (connectionGraphicsObjects s1)(cid \<mapsto> connectionObject')\<rparr>;
          s3 = updateAttachedNodes cid Out s2
      in updateAttachedNodes cid In s3)"

definition openDialog :: "ConnectionId \<Rightarrow> scene \<Rightarrow> scene" where
  "openDialog cid s =
     (let s1 = (if fmlookup (dialogs s) cid = None then
                  (let dialog = \<lparr>dlgHandle = nextHandle s, windowTitle = ''Select template'',
                                 isModal = True,
                                 listWidget = concat (map getColumnHeaders (m_record s))\<rparr>
                   in s\<lparr>nextHandle := Suc (nextHandle s),
                        dialogs := fmupd cid (dialog, '''') (dialogs s)\<rparr>)
                else s);
          s2 = (case fmlookup (dialogs s1) cid of
                  Some dialogPair \<Rightarrow> emit (DialogShow (dlgHandle (fst dialogPair))) s1
                | None \<Rightarrow> s1)
      in emit Modified s2)"

text \<open>
  The lambda connected to the OK button of the dialog of \<open>cid\<close>. The button belongs
  to the dialog that the entry of \<open>cid\<close> owns, so a click arrives only while that entry
  is present. \<open>currentRow\<close> is the row of the dialog's list the user has selected, if
  any: \<^verbatim>\<open>currentItem()\<close> is then the entry of that row, and null otherwise.
  \<open>getColorForHeader\<close> is defined outside this file and is a parameter.
\<close>

definition currentItem :: "QDialog \<Rightarrow> nat option \<Rightarrow> QString option" where
  "currentItem dialog currentRow =
     (case currentRow of
        Some row \<Rightarrow> if row < length (listWidget dialog) then Some (listWidget dialog ! row) else None
      | None \<Rightarrow> None)"

definition okButton_clicked ::
  "(QString \<Rightarrow> QColor) \<Rightarrow> ConnectionId \<Rightarrow> nat option \<Rightarrow> scene \<Rightarrow> scene" where
  "okButton_clicked getColorForHeader cid currentRow s =
     (case fmlookup (dialogs s) cid of
        None \<Rightarrow> s
      | Some dialogPair \<Rightarrow>
          (let s4 = (case currentItem (fst dialogPair) currentRow of
                       Some selectedTemplate \<Rightarrow>
                         (let s1 = s\<lparr>dialogs := fmupd cid (fst dialogPair, selectedTemplate) (dialogs s)\<rparr>;
                              selectedColor = getColorForHeader selectedTemplate;
                              s2 = (case connectionGraphicsObject s1 cid of
                                      Some co \<Rightarrow> emit (ConnectionUpdate (cgoHandle co))
                                                   (emit (SetConnectionColor (cgoHandle co) selectedColor) s1)
                                    | None \<Rightarrow> s1);
                              s3 = (case connectionGraphicsObject s2 cid of
                                      Some co \<Rightarrow> emit (ConnectionUpdate (cgoHandle co)) s2
                                    | None \<Rightarrow> s2)
                          in addTextUnderConnection cid selectedTemplate s3)
                     | None \<Rightarrow> s)
           in emit (DialogAccept (dlgHandle (fst dialogPair))) s4))"

definition onNodeDeleted :: "NodeId \<Rightarrow> scene \<Rightarrow> scene" where
  "onNodeDeleted nodeId s =
     (if nodeGraphicsObjects s nodeId \<noteq> None then
        emit Modified (s\<lparr>nodeGraphicsObjects := (nodeGraphicsObjects s)(nodeId := None)\<rparr>)
      else s)"

definition onNodeCreated :: "NodeId \<Rightarrow> scene \<Rightarrow> scene" where
  "onNodeCreated nodeId s = emit Modified (insertNode nodeId s)"

definition onNodePositionUpdated :: "AbstractGraphModel \<Rightarrow> NodeId \<Rightarrow> scene \<Rightarrow> scene" where
  "onNodePositionUpdated g nodeId s =
     (case nodeGraphicsObject s nodeId of
        Some node \<Rightarrow>
          (emit (NodeUpdate (ngoHandle node))
             (emit (NodeSetPos (ngoHandle node) (nodeData_Position g nodeId)) s))\<lparr>nodeDrag := True\<rparr>
      | None \<Rightarrow> s)"

definition onNodeUpdated :: "NodeId \<Rightarrow> scene \<Rightarrow> scene" where
  "onNodeUpdated nodeId s =
     (case nodeGraphicsObject s nodeId of
        Some node \<Rightarrow>
          s\<lparr>effects := effects s @
               [NodeSetGeometryChanged (ngoHandle node), RecomputeSize (nodeGeometry s) nodeId,
                NodeUpdateQWidgetEmbedPos (ngoHandle node), NodeUpdate (ngoHandle node),
                NodeMoveConnections (ngoHandle node)]\<rparr>
      | None \<Rightarrow> s)"

definition onNodeClicked :: "AbstractGraphModel \<Rightarrow> NodeId \<Rightarrow> scene \<Rightarrow> scene" where
  "onNodeClicked g nodeId s =
     (let s1 = (if nodeDrag s then
                  emit Modified (emit (NodeMoved nodeId (nodeData_Position g nodeId)) s)
                else s)
      in s1\<lparr>nodeDrag := False\<rparr>)"

subsection \<open>Signals of a connection object\<close>

text \<open>
  Modelled from the spec: ConnectionGraphicsObject is not among the sources. A
  connection proxy exposes its current incoming endpoint and can raise a position-changed
  notification; raising it runs the slots connected to it, in the order they were
  connected. Here the proxy of \<open>cid\<close> takes the incoming endpoint \<open>p\<close> and raises it.
\<close>

definition connection_positionChanged :: "ConnectionId \<Rightarrow> QPointF \<Rightarrow> scene \<Rightarrow> scene" where
  "connection_positionChanged cid p s =
     (case connectionGraphicsObjects s cid of
        Some co \<Rightarrow>
          fold (\<lambda>textItemPtr. positionChanged_slot textItemPtr (cgoHandle co)) (positionChanged co)
               (s\<lparr>endPointIn := (endPointIn s)(cgoHandle co := p)\<rparr>)
      | None \<Rightarrow> s)"

text \<open>
  Modelled from the spec: ConnectionGraphicsObject is not among the sources. A
  connection proxy can raise a double-activated notification, which runs the slots
  connected to it.
\<close>

definition connection_doubleClicked :: "ConnectionId \<Rightarrow> scene \<Rightarrow> scene" where
  "connection_doubleClicked cid s =
     (case connectionGraphicsObjects s cid of
        Some co \<Rightarrow> fold openDialog (doubleClicked co) s
      | None \<Rightarrow> s)"

subsection \<open>Reachable scenes\<close>

text \<open>
  The scenes that the constructor followed by any sequence of calls, notifications and
  user actions can produce. The graph model may have changed between two steps, so each
  step that queries it takes the model of that moment. A step whose behaviour is
  undefined leads nowhere.
\<close>

inductive reachable :: "scene \<Rightarrow> bool" where
  r_constructor: "reachable (BasicGraphicsScene g)"
| r_makeDraftConnection: "reachable s \<Longrightarrow> reachable (makeDraftConnection cid s)"
| r_resetDraftConnection: "reachable s \<Longrightarrow> reachable (resetDraftConnection s)"
| r_getRecordTemplates: "reachable s \<Longrightarrow> reachable (getRecordTemplates rs s)"
| r_setOrientation: "reachable s \<Longrightarrow> reachable (setOrientation g orientation' s)"
| r_onModelReset: "reachable s \<Longrightarrow> reachable (onModelReset g s)"
| r_onConnectionCreated: "reachable s \<Longrightarrow> reachable (onConnectionCreated cid s)"
| r_onConnectionDeleted: "reachable s \<Longrightarrow> onConnectionDeleted cid s = Inr s' \<Longrightarrow> reachable s'"
| r_onNodeCreated: "reachable s \<Longrightarrow> reachable (onNodeCreated nodeId s)"
| r_onNodeDeleted: "reachable s \<Longrightarrow> reachable (onNodeDeleted nodeId s)"
| r_onNodePositionUpdated: "reachable s \<Longrightarrow> reachable (onNodePositionUpdated g nodeId s)"
| r_onNodeUpdated: "reachable s \<Longrightarrow> reachable (onNodeUpdated nodeId s)"
| r_onNodeClicked: "reachable s \<Longrightarrow> reachable (onNodeClicked g nodeId s)"
| r_openDialog: "reachable s \<Longrightarrow> reachable (openDialog cid s)"
| r_okButton_clicked: "reachable s \<Longrightarrow> reachable (okButton_clicked getColorForHeader cid currentRow s)"
| r_connection_positionChanged: "reachable s \<Longrightarrow> reachable (connection_positionChanged cid p s)"
| r_connection_doubleClicked: "reachable s \<Longrightarrow> reachable (connection_doubleClicked cid s)"

text \<open>Every handle stored in the two proxy maps has been allocated.\<close>

definition handles_allocated :: "scene \<Rightarrow> bool" where
  "handles_allocated s \<longleftrightarrow>
     (\<forall>n obj. nodeGraphicsObjects s n = Some obj \<longrightarrow> ngoHandle obj < nextHandle s) \<and>
     (\<forall>c obj. connectionGraphicsObjects s c = Some obj \<longrightarrow> cgoHandle obj < nextHandle s)"

text \<open>
  Different connections have different connection objects, and a text item connected to
  the position signal of a connection object has been allocated and is connected to that
  object only.
\<close>

definition slots_separate :: "scene \<Rightarrow> bool" where
  "slots_separate s \<longleftrightarrow>
     (\<forall>c c' co co'. connectionGraphicsObjects s c = Some co \<and> connectionGraphicsObjects s c' = Some co'
        \<and> cgoHandle co = cgoHandle co' \<longrightarrow> c = c') \<and>
     (\<forall>c co t. connectionGraphicsObjects s c = Some co \<and> t \<in> set (positionChanged co)
        \<longrightarrow> t < nextHandle s) \<and>
     (\<forall>c c' co co' t. connectionGraphicsObjects s c = Some co \<and> connectionGraphicsObjects s c' = Some co'
        \<and> t \<in> set (positionChanged co) \<and> t \<in> set (positionChanged co') \<longrightarrow> c = c')"

text \<open>
  Every text item that is alive and connected to the position signal of a connection
  object in the registry sits at the label position for that object's incoming endpoint.
\<close>

definition labels_in_place :: "scene \<Rightarrow> bool" where
  "labels_in_place s \<longleftrightarrow>
     (\<forall>c co t item. connectionGraphicsObjects s c = Some co \<and> t \<in> set (positionChanged co)
        \<and> sceneTextItems s t = Some item
        \<longrightarrow> pos item = labelPosition (endPointIn s (cgoHandle co)))"

subsection \<open>Vocabulary of the properties\<close>

text \<open>
  The connections the second pass of the traversal finds: for each node in enumeration
  order, for each outgoing port in ascending index order, the connection ids at that port.
\<close>

definition allOutConnections :: "AbstractGraphModel \<Rightarrow> ConnectionId list" where
  "allOutConnections g = concat (map (outConnections g) (allNodeIds g))"

fun is_NodeMoved :: "event \<Rightarrow> bool" where
  "is_NodeMoved (NodeMoved n p) = True"
| "is_NodeMoved e = False"

text \<open>A run of position updates, each with the model of its moment.\<close>

definition positionUpdates :: "(AbstractGraphModel \<times> NodeId) list \<Rightarrow> scene \<Rightarrow> scene" where
  "positionUpdates us s = fold (\<lambda>(g, nodeId). onNodePositionUpdated g nodeId) us s"



subsection \<open>Example models and scenes\<close>

text \<open>
  Nodes A, B, C are 1, 2, 3; \<open>connAC\<close> runs from port 0 of A to port 0 of C and
  \<open>connAB\<close> from port 0 of A to port 0 of B. \<open>modelABC\<close> has the three nodes and the
  connection A to C, \<open>modelABC_unconnected\<close> the three nodes only. \<open>modelDangling\<close> has
  the single node A and reports, at its port 0, the connection \<open>connA9\<close> to a node 9 that
  it does not enumerate.
\<close>

definition connAC :: ConnectionId where
  "connAC = \<lparr>outNodeId = 1, outPortIndex = 0, inNodeId = 3, inPortIndex = 0\<rparr>"

definition connAB :: ConnectionId where
  "connAB = \<lparr>outNodeId = 1, outPortIndex = 0, inNodeId = 2, inPortIndex = 0\<rparr>"

definition connA9 :: ConnectionId where
  "connA9 = \<lparr>outNodeId = 1, outPortIndex = 0, inNodeId = 9, inPortIndex = 0\<rparr>"

definition origin :: QPointF where
  "origin = \<lparr>xp = 0, yp = 0\<rparr>"

definition modelABC :: AbstractGraphModel where
  "modelABC =
     \<lparr>allNodeIds = [1, 2, 3],
      nodeData_OutPortCount = (\<lambda>n. if n = 1 then 1 else 0),
      nodeData_Position = (\<lambda>n. origin),
      connections = (\<lambda>n portType index.
        if (n = 1 \<and> portType = Out \<or> n = 3 \<and> portType = In) \<and> index = 0 then [connAC] else [])\<rparr>"

definition modelABC_unconnected :: AbstractGraphModel where
  "modelABC_unconnected =
     \<lparr>allNodeIds = [1, 2, 3],
      nodeData_OutPortCount = (\<lambda>n. if n = 1 then 1 else 0),
      nodeData_Position = (\<lambda>n. origin),
      connections = (\<lambda>n portType index. [])\<rparr>"

definition modelDangling :: AbstractGraphModel where
  "modelDangling =
     \<lparr>allNodeIds = [1],
      nodeData_OutPortCount = (\<lambda>n. if n = 1 then 1 else 0),
      nodeData_Position = (\<lambda>n. origin),
      connections = (\<lambda>n portType index.
        if n = 1 \<and> portType = Out \<and> index = 0 then [connA9] else [])\<rparr>"

definition greyForAll :: "QString \<Rightarrow> QColor" where
  "greyForAll header = Rgb 128 128 128"

definition templatesH :: "cesgrouprecord list" where
  "templatesH = [\<lparr>getColumnHeaders = [''H'']\<rparr>]"

definition selectDialog :: QDialog where
  "selectDialog = \<lparr>dlgHandle = 4, windowTitle = ''Select template'', isModal = True, listWidget = [''H'']\<rparr>"

definition labelH :: QGraphicsTextItem where
  "labelH = \<lparr>toPlainText = ''H'', pos = \<lparr>xp = - 50, yp = 1\<rparr>, defaultTextColor = white,
            font = (''Arial'', 10)\<rparr>"

text \<open>
  \<open>connectedScene\<close>: the scene built for the three unconnected nodes, after the
  notification that the connection A to C was created. \<open>annotatedScene\<close>: the
  templates with the single category \<open>''H''\<close> are then supplied, the dialog of that
  connection is opened and the category in row 0, \<open>''H''\<close>, is chosen.
  \<open>resetScene\<close>: the annotated scene after a reset against the model without
  connections. \<open>replacedScene\<close>: the annotated scene after a second notification that
  the connection A to C was created; \<open>movedScene\<close>: the proxy of that connection then
  reports the incoming endpoint (100, 20).
\<close>

definition connectedScene :: scene where
  "connectedScene = onConnectionCreated connAC (BasicGraphicsScene modelABC_unconnected)"

definition annotatedScene :: scene where
  "annotatedScene =
     okButton_clicked greyForAll connAC (Some 0)
       (openDialog connAC (getRecordTemplates templatesH connectedScene))"

definition resetScene :: scene where
  "resetScene = onModelReset modelABC_unconnected annotatedScene"

definition replacedScene :: scene where
  "replacedScene = onConnectionCreated connAC annotatedScene"

definition movedScene :: scene where
  "movedScene = connection_positionChanged connAC \<lparr>xp = 100, yp = 20\<rparr> replacedScene"

text \<open>
  \<open>twoDialogsScene\<close>: in the annotated scene the connection A to B is created as well
  and its dialog is opened, with no category chosen.
\<close>

definition twoDialogsScene :: scene where
  "twoDialogsScene = openDialog connAB (onConnectionCreated connAB annotatedScene)"

section \<open>Supporting lemmas\<close>

subsection \<open>What each step leaves alone\<close>

lemma emit_fields [simp]:
  "nodeGraphicsObjects (emit e s) = nodeGraphicsObjects s"
  "connectionGraphicsObjects (emit e s) = connectionGraphicsObjects s"
  "draftConnection (emit e s) = draftConnection s"
  "nodeGeometry (emit e s) = nodeGeometry s"
  "nodeDrag (emit e s) = nodeDrag s"
  "orientation (emit e s) = orientation s"
  "m_record (emit e s) = m_record s"
  "dialogs (emit e s) = dialogs s"
  "textItems (emit e s) = textItems s"
  "sceneTextItems (emit e s) = sceneTextItems s"
  "endPointIn (emit e s) = endPointIn s"
  "nextHandle (emit e s) = nextHandle s"
  "effects (emit e s) = effects s @ [e]"
  by (simp_all add: emit_def)

lemma make_Connection_simps [simp]:
  "fst (make_ConnectionGraphicsObject c s) =
     \<lparr>cgoHandle = nextHandle s, connectionId_of = c, doubleClicked = [], positionChanged = []\<rparr>"
  "snd (make_ConnectionGraphicsObject c s) =
     emit (NewConnectionGraphicsObject (nextHandle s) c) (s\<lparr>nextHandle := Suc (nextHandle s)\<rparr>)"
  by (simp_all add: make_ConnectionGraphicsObject_def)

lemma make_Node_simps [simp]:
  "fst (make_NodeGraphicsObject n s) = \<lparr>ngoHandle = nextHandle s, ngoNodeId = n\<rparr>"
  "snd (make_NodeGraphicsObject n s) =
     emit (NewNodeGraphicsObject (nextHandle s) n) (s\<lparr>nextHandle := Suc (nextHandle s)\<rparr>)"
  by (simp_all add: make_NodeGraphicsObject_def)

lemma nodeGraphicsObject_eq: "nodeGraphicsObject s = nodeGraphicsObjects s"
  by (rule ext) (simp add: nodeGraphicsObject_def)

lemma updateAttachedNodes_fields [simp]:
  "nodeGraphicsObjects (updateAttachedNodes c p s) = nodeGraphicsObjects s"
  "connectionGraphicsObjects (updateAttachedNodes c p s) = connectionGraphicsObjects s"
  "draftConnection (updateAttachedNodes c p s) = draftConnection s"
  "nodeGeometry (updateAttachedNodes c p s) = nodeGeometry s"
  "nodeDrag (updateAttachedNodes c p s) = nodeDrag s"
  "orientation (updateAttachedNodes c p s) = orientation s"
  "m_record (updateAttachedNodes c p s) = m_record s"
  "dialogs (updateAttachedNodes c p s) = dialogs s"
  "textItems (updateAttachedNodes c p s) = textItems s"
  "sceneTextItems (updateAttachedNodes c p s) = sceneTextItems s"
  "endPointIn (updateAttachedNodes c p s) = endPointIn s"
  "nextHandle (updateAttachedNodes c p s) = nextHandle s"
  by (simp_all add: updateAttachedNodes_def split: option.splits)

lemma updateAttachedNodes_effects:
  "effects (updateAttachedNodes c p s) =
     effects s @ (case Option.bind (getNodeId p c) (nodeGraphicsObjects s) of
                    Some node \<Rightarrow> [NodeUpdate (ngoHandle node)] | None \<Rightarrow> [])"
  by (simp add: updateAttachedNodes_def nodeGraphicsObject_eq split: option.splits)

lemma fmdrop_absent: "fmlookup m k = None \<Longrightarrow> fmdrop k m = m"
  by (rule fmap_ext) simp

lemma removeDialog_fields [simp]:
  "nodeGraphicsObjects (removeDialog c s) = nodeGraphicsObjects s"
  "connectionGraphicsObjects (removeDialog c s) = connectionGraphicsObjects s"
  "draftConnection (removeDialog c s) = draftConnection s"
  "nodeGeometry (removeDialog c s) = nodeGeometry s"
  "nodeDrag (removeDialog c s) = nodeDrag s"
  "orientation (removeDialog c s) = orientation s"
  "m_record (removeDialog c s) = m_record s"
  "textItems (removeDialog c s) = textItems s"
  "sceneTextItems (removeDialog c s) = sceneTextItems s"
  "endPointIn (removeDialog c s) = endPointIn s"
  "nextHandle (removeDialog c s) = nextHandle s"
  by (simp_all add: removeDialog_def split: option.splits)

lemma removeDialog_dialogs [simp]: "dialogs (removeDialog c s) = fmdrop c (dialogs s)"
  by (simp add: removeDialog_def fmdrop_absent split: option.splits)

lemma removeDialog_effects:
  "effects (removeDialog c s) =
     effects s @ (case fmlookup (dialogs s) c of
                    Some dialogPair \<Rightarrow> [DialogClose (dlgHandle (fst dialogPair))] | None \<Rightarrow> [])"
  by (simp add: removeDialog_def split: option.splits)

lemma deleteTextItem_Inl:
  "deleteTextItem c s = Inl e \<longleftrightarrow>
     (\<exists>t. textItems s c = Some t \<and> sceneTextItems s t = None \<and> e = UseAfterFree t)"
  by (auto simp: deleteTextItem_def split: option.splits)

lemma deleteTextItem_Inr:
  "deleteTextItem c s = Inr s' \<longleftrightarrow>
     (case textItems s c of
        Some t \<Rightarrow> sceneTextItems s t \<noteq> None
                  \<and> s' = s\<lparr>sceneTextItems := (sceneTextItems s)(t := None), textItems := (textItems s)(c := None)\<rparr>
      | None \<Rightarrow> s' = s)"
  by (auto simp: deleteTextItem_def split: option.splits)

lemma onConnectionDeleted_Inl:
  "onConnectionDeleted c s = Inl e \<longleftrightarrow>
     (\<exists>t. textItems s c = Some t \<and> sceneTextItems s t = None \<and> e = UseAfterFree t)"
proof -
  have "onConnectionDeleted c s = Inl e \<longleftrightarrow>
        deleteTextItem c (s\<lparr>connectionGraphicsObjects := (connectionGraphicsObjects s)(c := None)\<rparr>) = Inl e"
    by (simp add: onConnectionDeleted_def Let_def split: sum.splits)
  then show ?thesis by (simp add: deleteTextItem_Inl)
qed

lemma onConnectionDeleted_fields:
  assumes "onConnectionDeleted c s = Inr s'"
  shows
    "nodeGraphicsObjects s' = nodeGraphicsObjects s"
    "connectionGraphicsObjects s' = (connectionGraphicsObjects s)(c := None)"
    "dialogs s' = fmdrop c (dialogs s)"
    "textItems s' = (textItems s)(c := None)"
    "sceneTextItems s' =
       (case textItems s c of Some t \<Rightarrow> (sceneTextItems s)(t := None) | None \<Rightarrow> sceneTextItems s)"
    "draftConnection s' =
       (case draftConnection s of
          Some d \<Rightarrow> if connectionId_of d = c then None else Some d
        | None \<Rightarrow> None)"
    "nextHandle s' = nextHandle s"
    "endPointIn s' = endPointIn s"
    "nodeDrag s' = nodeDrag s"
    "orientation s' = orientation s"
    "nodeGeometry s' = nodeGeometry s"
    "m_record s' = m_record s"
proof -
  from assms obtain s2 where
    d: "deleteTextItem c (s\<lparr>connectionGraphicsObjects := (connectionGraphicsObjects s)(c := None)\<rparr>) = Inr s2"
    and s': "s' = emit Modified (removeDialog c (updateAttachedNodes c In (updateAttachedNodes c Out
               (case draftConnection s2 of
                  Some d \<Rightarrow> if connectionId_of d = c then s2\<lparr>draftConnection := None\<rparr> else s2
                | None \<Rightarrow> s2))))"
    by (auto simp: onConnectionDeleted_def Let_def split: sum.splits)
  from d have s2:
    "nodeGraphicsObjects s2 = nodeGraphicsObjects s"
    "connectionGraphicsObjects s2 = (connectionGraphicsObjects s)(c := None)"
    "dialogs s2 = dialogs s"
    "textItems s2 = (textItems s)(c := None)"
    "sceneTextItems s2 =
       (case textItems s c of Some t \<Rightarrow> (sceneTextItems s)(t := None) | None \<Rightarrow> sceneTextItems s)"
    "draftConnection s2 = draftConnection s"
    "nextHandle s2 = nextHandle s"
    "endPointIn s2 = endPointIn s"
    "nodeDrag s2 = nodeDrag s"
    "orientation s2 = orientation s"
    "nodeGeometry s2 = nodeGeometry s"
    "m_record s2 = m_record s"
    by (auto simp: deleteTextItem_Inr split: option.splits)
  show "nodeGraphicsObjects s' = nodeGraphicsObjects s"
    "connectionGraphicsObjects s' = (connectionGraphicsObjects s)(c := None)"
    "dialogs s' = fmdrop c (dialogs s)"
    "textItems s' = (textItems s)(c := None)"
    "sceneTextItems s' =
       (case textItems s c of Some t \<Rightarrow> (sceneTextItems s)(t := None) | None \<Rightarrow> sceneTextItems s)"
    "draftConnection s' =
       (case draftConnection s of
          Some d \<Rightarrow> if connectionId_of d = c then None else Some d
        | None \<Rightarrow> None)"
    "nextHandle s' = nextHandle s"
    "endPointIn s' = endPointIn s"
    "nodeDrag s' = nodeDrag s"
    "orientation s' = orientation s"
    "nodeGeometry s' = nodeGeometry s"
    "m_record s' = m_record s"
    by (simp_all add: s' s2 split: option.splits)
qed

lemma onConnectionDeleted_effects:
  assumes "onConnectionDeleted c s = Inr s'"
  shows "\<exists>es. effects s' = effects s @ es @ [Modified]"
proof -
  from assms obtain s2 where
    d: "deleteTextItem c (s\<lparr>connectionGraphicsObjects := (connectionGraphicsObjects s)(c := None)\<rparr>) = Inr s2"
    and s': "s' = emit Modified (removeDialog c (updateAttachedNodes c In (updateAttachedNodes c Out
               (case draftConnection s2 of
                  Some d \<Rightarrow> if connectionId_of d = c then s2\<lparr>draftConnection := None\<rparr> else s2
                | None \<Rightarrow> s2))))"
    by (auto simp: onConnectionDeleted_def Let_def split: sum.splits)
  from d have "effects s2 = effects s"
    by (auto simp: deleteTextItem_Inr split: option.splits)
  then show ?thesis
    by (simp add: s' removeDialog_effects updateAttachedNodes_effects split: option.splits)
qed

lemma makeDraftConnection_fields [simp]:
  "nodeGraphicsObjects (makeDraftConnection c s) = nodeGraphicsObjects s"
  "connectionGraphicsObjects (makeDraftConnection c s) = connectionGraphicsObjects s"
  "draftConnection (makeDraftConnection c s) =
     Some \<lparr>cgoHandle = nextHandle s, connectionId_of = c, doubleClicked = [], positionChanged = []\<rparr>"
  "dialogs (makeDraftConnection c s) = dialogs s"
  "textItems (makeDraftConnection c s) = textItems s"
  "sceneTextItems (makeDraftConnection c s) = sceneTextItems s"
  "nextHandle (makeDraftConnection c s) = Suc (nextHandle s)"
  "effects (makeDraftConnection c s) =
     effects s @ [NewConnectionGraphicsObject (nextHandle s) c, GrabMouse (nextHandle s)]"
  by (simp_all add: makeDraftConnection_def case_prod_unfold)

lemma insertNode_fields [simp]:
  "nodeGraphicsObjects (insertNode n s) =
     (nodeGraphicsObjects s)(n \<mapsto> \<lparr>ngoHandle = nextHandle s, ngoNodeId = n\<rparr>)"
  "connectionGraphicsObjects (insertNode n s) = connectionGraphicsObjects s"
  "draftConnection (insertNode n s) = draftConnection s"
  "nodeGeometry (insertNode n s) = nodeGeometry s"
  "nodeDrag (insertNode n s) = nodeDrag s"
  "orientation (insertNode n s) = orientation s"
  "m_record (insertNode n s) = m_record s"
  "dialogs (insertNode n s) = dialogs s"
  "textItems (insertNode n s) = textItems s"
  "sceneTextItems (insertNode n s) = sceneTextItems s"
  "endPointIn (insertNode n s) = endPointIn s"
  "nextHandle (insertNode n s) = Suc (nextHandle s)"
  "effects (insertNode n s) = effects s @ [NewNodeGraphicsObject (nextHandle s) n]"
  by (simp_all add: insertNode_def case_prod_unfold)

lemma insertConnection_fields [simp]:
  "nodeGraphicsObjects (insertConnection c s) = nodeGraphicsObjects s"
  "connectionGraphicsObjects (insertConnection c s) =
     (connectionGraphicsObjects s)(c \<mapsto> \<lparr>cgoHandle = nextHandle s, connectionId_of = c,
                                          doubleClicked = [], positionChanged = []\<rparr>)"
  "draftConnection (insertConnection c s) = draftConnection s"
  "nodeGeometry (insertConnection c s) = nodeGeometry s"
  "nodeDrag (insertConnection c s) = nodeDrag s"
  "orientation (insertConnection c s) = orientation s"
  "m_record (insertConnection c s) = m_record s"
  "dialogs (insertConnection c s) = dialogs s"
  "textItems (insertConnection c s) = textItems s"
  "sceneTextItems (insertConnection c s) = sceneTextItems s"
  "endPointIn (insertConnection c s) = endPointIn s"
  "nextHandle (insertConnection c s) = Suc (nextHandle s)"
  "effects (insertConnection c s) = effects s @ [NewConnectionGraphicsObject (nextHandle s) c]"
  by (simp_all add: insertConnection_def case_prod_unfold)

lemma onConnectionCreated_fields:
  "nodeGraphicsObjects (onConnectionCreated c s) = nodeGraphicsObjects s"
  "connectionGraphicsObjects (onConnectionCreated c s) =
     (connectionGraphicsObjects s)(c \<mapsto> \<lparr>cgoHandle = nextHandle s, connectionId_of = c,
                                          doubleClicked = [c], positionChanged = []\<rparr>)"
  "draftConnection (onConnectionCreated c s) = draftConnection s"
  "dialogs (onConnectionCreated c s) = dialogs s"
  "textItems (onConnectionCreated c s) = textItems s"
  "sceneTextItems (onConnectionCreated c s) = sceneTextItems s"
  "nextHandle (onConnectionCreated c s) = Suc (nextHandle s)"
  by (simp_all add: onConnectionCreated_def case_prod_unfold Let_def)

lemma onConnectionCreated_effects:
  "effects (onConnectionCreated c s) =
     effects s @ [NewConnectionGraphicsObject (nextHandle s) c]
       @ (case nodeGraphicsObjects s (outNodeId c) of Some node \<Rightarrow> [NodeUpdate (ngoHandle node)] | None \<Rightarrow> [])
       @ (case nodeGraphicsObjects s (inNodeId c) of Some node \<Rightarrow> [NodeUpdate (ngoHandle node)] | None \<Rightarrow> [])"
  by (simp add: onConnectionCreated_def case_prod_unfold Let_def updateAttachedNodes_effects getNodeId_def)

lemma onNodePositionUpdated_fields [simp]:
  "nodeGraphicsObjects (onNodePositionUpdated g n s) = nodeGraphicsObjects s"
  "connectionGraphicsObjects (onNodePositionUpdated g n s) = connectionGraphicsObjects s"
  "draftConnection (onNodePositionUpdated g n s) = draftConnection s"
  "dialogs (onNodePositionUpdated g n s) = dialogs s"
  "textItems (onNodePositionUpdated g n s) = textItems s"
  "sceneTextItems (onNodePositionUpdated g n s) = sceneTextItems s"
  "nextHandle (onNodePositionUpdated g n s) = nextHandle s"
  "nodeDrag (onNodePositionUpdated g n s) = (nodeDrag s \<or> nodeGraphicsObjects s n \<noteq> None)"
  "effects (onNodePositionUpdated g n s) =
     effects s @ (case nodeGraphicsObjects s n of
                    Some node \<Rightarrow> [NodeSetPos (ngoHandle node) (nodeData_Position g n), NodeUpdate (ngoHandle node)]
                  | None \<Rightarrow> [])"
  by (auto simp: onNodePositionUpdated_def nodeGraphicsObject_def split: option.splits)

lemma onNodeClicked_fields [simp]:
  "nodeGraphicsObjects (onNodeClicked g n s) = nodeGraphicsObjects s"
  "connectionGraphicsObjects (onNodeClicked g n s) = connectionGraphicsObjects s"
  "draftConnection (onNodeClicked g n s) = draftConnection s"
  "dialogs (onNodeClicked g n s) = dialogs s"
  "textItems (onNodeClicked g n s) = textItems s"
  "sceneTextItems (onNodeClicked g n s) = sceneTextItems s"
  "nextHandle (onNodeClicked g n s) = nextHandle s"
  "nodeDrag (onNodeClicked g n s) = False"
  "effects (onNodeClicked g n s) =
     effects s @ (if nodeDrag s then [NodeMoved n (nodeData_Position g n), Modified] else [])"
  by (simp_all add: onNodeClicked_def Let_def)

lemma positionUpdates_fields [simp]:
  "nodeGraphicsObjects (positionUpdates us s) = nodeGraphicsObjects s"
  "nodeDrag (positionUpdates us s) = (nodeDrag s \<or> (\<exists>u \<in> set us. nodeGraphicsObjects s (snd u) \<noteq> None))"
  "filter is_NodeMoved (effects (positionUpdates us s)) = filter is_NodeMoved (effects s)"
  unfolding positionUpdates_def
  by (induction us arbitrary: s; auto simp: case_prod_unfold split: option.splits)+

lemma onNodeCreated_fields [simp]:
  "nodeGraphicsObjects (onNodeCreated n s) =
     (nodeGraphicsObjects s)(n \<mapsto> \<lparr>ngoHandle = nextHandle s, ngoNodeId = n\<rparr>)"
  "connectionGraphicsObjects (onNodeCreated n s) = connectionGraphicsObjects s"
  "draftConnection (onNodeCreated n s) = draftConnection s"
  "dialogs (onNodeCreated n s) = dialogs s"
  "textItems (onNodeCreated n s) = textItems s"
  "sceneTextItems (onNodeCreated n s) = sceneTextItems s"
  "nextHandle (onNodeCreated n s) = Suc (nextHandle s)"
  "effects (onNodeCreated n s) = effects s @ [NewNodeGraphicsObject (nextHandle s) n, Modified]"
  by (simp_all add: onNodeCreated_def)

lemma onNodeDeleted_fields [simp]:
  "nodeGraphicsObjects (onNodeDeleted n s) = (nodeGraphicsObjects s)(n := None)"
  "connectionGraphicsObjects (onNodeDeleted n s) = connectionGraphicsObjects s"
  "draftConnection (onNodeDeleted n s) = draftConnection s"
  "dialogs (onNodeDeleted n s) = dialogs s"
  "textItems (onNodeDeleted n s) = textItems s"
  "sceneTextItems (onNodeDeleted n s) = sceneTextItems s"
  "nextHandle (onNodeDeleted n s) = nextHandle s"
  "effects (onNodeDeleted n s) = effects s @ (if nodeGraphicsObjects s n \<noteq> None then [Modified] else [])"
  by (auto simp: onNodeDeleted_def)

lemma onNodeUpdated_fields [simp]:
  "nodeGraphicsObjects (onNodeUpdated n s) = nodeGraphicsObjects s"
  "connectionGraphicsObjects (onNodeUpdated n s) = connectionGraphicsObjects s"
  "draftConnection (onNodeUpdated n s) = draftConnection s"
  "dialogs (onNodeUpdated n s) = dialogs s"
  "textItems (onNodeUpdated n s) = textItems s"
  "sceneTextItems (onNodeUpdated n s) = sceneTextItems s"
  "nextHandle (onNodeUpdated n s) = nextHandle s"
  by (simp_all add: onNodeUpdated_def split: option.splits)

lemma labelPosition_eq: "labelPosition p = \<lparr>xp = xp p - 50, yp = yp p + 1\<rparr>"
  by (simp add: labelPosition_def)

lemma positionChanged_slot_fields [simp]:
  "nodeGraphicsObjects (positionChanged_slot t h s) = nodeGraphicsObjects s"
  "connectionGraphicsObjects (positionChanged_slot t h s) = connectionGraphicsObjects s"
  "draftConnection (positionChanged_slot t h s) = draftConnection s"
  "dialogs (positionChanged_slot t h s) = dialogs s"
  "textItems (positionChanged_slot t h s) = textItems s"
  "endPointIn (positionChanged_slot t h s) = endPointIn s"
  "nextHandle (positionChanged_slot t h s) = nextHandle s"
  "effects (positionChanged_slot t h s) = effects s"
  by (simp_all add: positionChanged_slot_def split: option.splits)

lemma positionChanged_slot_live:
  "sceneTextItems s t = Some item \<Longrightarrow>
   sceneTextItems (positionChanged_slot t h s) =
     (sceneTextItems s)(t \<mapsto> item\<lparr>pos := labelPosition (endPointIn s h)\<rparr>)"
  by (simp add: positionChanged_slot_def)

lemma positionChanged_slot_dead:
  "sceneTextItems s t = None \<Longrightarrow> positionChanged_slot t h s = s"
  by (simp add: positionChanged_slot_def)

lemma fold_positionChanged_slot_fields [simp]:
  "nodeGraphicsObjects (fold (\<lambda>t. positionChanged_slot t h) ts s) = nodeGraphicsObjects s"
  "connectionGraphicsObjects (fold (\<lambda>t. positionChanged_slot t h) ts s) = connectionGraphicsObjects s"
  "draftConnection (fold (\<lambda>t. positionChanged_slot t h) ts s) = draftConnection s"
  "dialogs (fold (\<lambda>t. positionChanged_slot t h) ts s) = dialogs s"
  "textItems (fold (\<lambda>t. positionChanged_slot t h) ts s) = textItems s"
  "endPointIn (fold (\<lambda>t. positionChanged_slot t h) ts s) = endPointIn s"
  "nextHandle (fold (\<lambda>t. positionChanged_slot t h) ts s) = nextHandle s"
  "effects (fold (\<lambda>t. positionChanged_slot t h) ts s) = effects s"
  by (induction ts arbitrary: s; simp)+

lemma connection_positionChanged_fields [simp]:
  "nodeGraphicsObjects (connection_positionChanged c p s) = nodeGraphicsObjects s"
  "connectionGraphicsObjects (connection_positionChanged c p s) = connectionGraphicsObjects s"
  "draftConnection (connection_positionChanged c p s) = draftConnection s"
  "dialogs (connection_positionChanged c p s) = dialogs s"
  "textItems (connection_positionChanged c p s) = textItems s"
  "nextHandle (connection_positionChanged c p s) = nextHandle s"
  "effects (connection_positionChanged c p s) = effects s"
  by (simp_all add: connection_positionChanged_def split: option.splits)

lemma addTextUnderConnection_fields [simp]:
  "nodeGraphicsObjects (addTextUnderConnection c t s) = nodeGraphicsObjects s"
  "draftConnection (addTextUnderConnection c t s) = draftConnection s"
  "nodeGeometry (addTextUnderConnection c t s) = nodeGeometry s"
  "nodeDrag (addTextUnderConnection c t s) = nodeDrag s"
  "orientation (addTextUnderConnection c t s) = orientation s"
  "m_record (addTextUnderConnection c t s) = m_record s"
  "dialogs (addTextUnderConnection c t s) = dialogs s"
  "endPointIn (addTextUnderConnection c t s) = endPointIn s"
  "effects (addTextUnderConnection c t s) = effects s"
  by (simp_all add: addTextUnderConnection_def Let_def split: option.splits)

lemma addTextUnderConnection_present:
  assumes "connectionGraphicsObjects s c = Some co"
  shows
    "connectionGraphicsObjects (addTextUnderConnection c t s) =
       (connectionGraphicsObjects s)(c \<mapsto> co\<lparr>positionChanged := positionChanged co @ [nextHandle s]\<rparr>)"
    "textItems (addTextUnderConnection c t s) = (textItems s)(c \<mapsto> nextHandle s)"
    "sceneTextItems (addTextUnderConnection c t s) =
       (sceneTextItems s)(nextHandle s \<mapsto>
          \<lparr>toPlainText = t, pos = labelPosition (endPointIn s (cgoHandle co)),
           defaultTextColor = white, font = (''Arial'', 10)\<rparr>)"
    "nextHandle (addTextUnderConnection c t s) = Suc (nextHandle s)"
  using assms by (simp_all add: addTextUnderConnection_def Let_def)

lemma addTextUnderConnection_absent:
  "connectionGraphicsObjects s c = None \<Longrightarrow> addTextUnderConnection c t s = s"
  by (simp add: addTextUnderConnection_def)

lemma addTextUnderConnection_handles:
  "nextHandle s \<le> nextHandle (addTextUnderConnection c t s)"
  "connectionGraphicsObjects (addTextUnderConnection c t s) c' = Some obj \<Longrightarrow>
     \<exists>obj'. connectionGraphicsObjects s c' = Some obj' \<and> cgoHandle obj' = cgoHandle obj"
  by (cases "connectionGraphicsObjects s c";
      auto simp: addTextUnderConnection_present addTextUnderConnection_absent split: if_splits)+

lemma openDialog_fields [simp]:
  "nodeGraphicsObjects (openDialog c s) = nodeGraphicsObjects s"
  "connectionGraphicsObjects (openDialog c s) = connectionGraphicsObjects s"
  "draftConnection (openDialog c s) = draftConnection s"
  "nodeGeometry (openDialog c s) = nodeGeometry s"
  "nodeDrag (openDialog c s) = nodeDrag s"
  "orientation (openDialog c s) = orientation s"
  "m_record (openDialog c s) = m_record s"
  "textItems (openDialog c s) = textItems s"
  "sceneTextItems (openDialog c s) = sceneTextItems s"
  "endPointIn (openDialog c s) = endPointIn s"
  by (simp_all add: openDialog_def Let_def split: option.splits)

lemma openDialog_dialogs:
  "dialogs (openDialog c s) =
     (if fmlookup (dialogs s) c = None
      then fmupd c (\<lparr>dlgHandle = nextHandle s, windowTitle = ''Select template'', isModal = True,
                      listWidget = concat (map getColumnHeaders (m_record s))\<rparr>, '''') (dialogs s)
      else dialogs s)"
  by (auto simp: openDialog_def Let_def split: option.splits)

lemma openDialog_nextHandle:
  "nextHandle (openDialog c s) = (if fmlookup (dialogs s) c = None then Suc (nextHandle s) else nextHandle s)"
  by (auto simp: openDialog_def Let_def split: option.splits)

lemma openDialog_effects:
  "\<exists>es. effects (openDialog c s) = effects s @ es @ [Modified]"
  by (auto simp: openDialog_def Let_def split: option.splits)

lemma fold_openDialog_fields [simp]:
  "nodeGraphicsObjects (fold openDialog cs s) = nodeGraphicsObjects s"
  "connectionGraphicsObjects (fold openDialog cs s) = connectionGraphicsObjects s"
  "draftConnection (fold openDialog cs s) = draftConnection s"
  "textItems (fold openDialog cs s) = textItems s"
  "sceneTextItems (fold openDialog cs s) = sceneTextItems s"
  by (induction cs arbitrary: s; simp)+

lemma fold_openDialog_nextHandle: "nextHandle s \<le> nextHandle (fold openDialog cs s)"
proof (induction cs arbitrary: s)
  case Nil
  show ?case by simp
next
  case (Cons c cs)
  have "nextHandle s \<le> nextHandle (openDialog c s)"
    by (simp add: openDialog_nextHandle)
  with Cons.IH [of "openDialog c s"] show ?case by simp
qed

lemma connection_doubleClicked_fields [simp]:
  "nodeGraphicsObjects (connection_doubleClicked c s) = nodeGraphicsObjects s"
  "connectionGraphicsObjects (connection_doubleClicked c s) = connectionGraphicsObjects s"
  "draftConnection (connection_doubleClicked c s) = draftConnection s"
  "textItems (connection_doubleClicked c s) = textItems s"
  "sceneTextItems (connection_doubleClicked c s) = sceneTextItems s"
  by (simp_all add: connection_doubleClicked_def split: option.splits)

lemma connection_doubleClicked_nextHandle: "nextHandle s \<le> nextHandle (connection_doubleClicked c s)"
  by (simp add: connection_doubleClicked_def fold_openDialog_nextHandle split: option.splits)

lemma okButton_clicked_fields [simp]:
  "nodeGraphicsObjects (okButton_clicked f c i s) = nodeGraphicsObjects s"
  "draftConnection (okButton_clicked f c i s) = draftConnection s"
  "nodeGeometry (okButton_clicked f c i s) = nodeGeometry s"
  "nodeDrag (okButton_clicked f c i s) = nodeDrag s"
  "orientation (okButton_clicked f c i s) = orientation s"
  "m_record (okButton_clicked f c i s) = m_record s"
  "endPointIn (okButton_clicked f c i s) = endPointIn s"
  by (simp_all add: okButton_clicked_def Let_def connectionGraphicsObject_def split: option.splits)

lemma okButton_clicked_dialogs:
  "dialogs (okButton_clicked f c i s) =
     (case fmlookup (dialogs s) c of
        Some dialogPair \<Rightarrow>
          (case currentItem (fst dialogPair) i of
             Some selectedTemplate \<Rightarrow> fmupd c (fst dialogPair, selectedTemplate) (dialogs s)
           | None \<Rightarrow> dialogs s)
      | None \<Rightarrow> dialogs s)"
  by (simp add: okButton_clicked_def Let_def connectionGraphicsObject_def split: option.splits)

text \<open>
  What a click on OK does to the registry: nothing when the dialog is gone or no row is
  selected, and otherwise what \<open>addTextUnderConnection\<close> does for the selected text.
\<close>

lemma okButton_clicked_registry:
  "connectionGraphicsObjects (okButton_clicked f c i s) =
     (case Option.bind (fmlookup (dialogs s) c) (\<lambda>dialogPair. currentItem (fst dialogPair) i) of
        Some t \<Rightarrow> connectionGraphicsObjects (addTextUnderConnection c t s)
      | None \<Rightarrow> connectionGraphicsObjects s)"
  "textItems (okButton_clicked f c i s) =
     (case Option.bind (fmlookup (dialogs s) c) (\<lambda>dialogPair. currentItem (fst dialogPair) i) of
        Some t \<Rightarrow> textItems (addTextUnderConnection c t s)
      | None \<Rightarrow> textItems s)"
  "sceneTextItems (okButton_clicked f c i s) =
     (case Option.bind (fmlookup (dialogs s) c) (\<lambda>dialogPair. currentItem (fst dialogPair) i) of
        Some t \<Rightarrow> sceneTextItems (addTextUnderConnection c t s)
      | None \<Rightarrow> sceneTextItems s)"
  "nextHandle (okButton_clicked f c i s) =
     (case Option.bind (fmlookup (dialogs s) c) (\<lambda>dialogPair. currentItem (fst dialogPair) i) of
        Some t \<Rightarrow> nextHandle (addTextUnderConnection c t s)
      | None \<Rightarrow> nextHandle s)"
proof -
  have frame: "connectionGraphicsObjects (addTextUnderConnection c t s') = connectionGraphicsObjects (addTextUnderConnection c t s)"
    "textItems (addTextUnderConnection c t s') = textItems (addTextUnderConnection c t s)"
    "sceneTextItems (addTextUnderConnection c t s') = sceneTextItems (addTextUnderConnection c t s)"
    "nextHandle (addTextUnderConnection c t s') = nextHandle (addTextUnderConnection c t s)"
    if "connectionGraphicsObjects s' = connectionGraphicsObjects s" "textItems s' = textItems s"
      "sceneTextItems s' = sceneTextItems s" "nextHandle s' = nextHandle s" "endPointIn s' = endPointIn s"
    for s' t
    using that by (simp_all add: addTextUnderConnection_def Let_def split: option.splits)
  show "connectionGraphicsObjects (okButton_clicked f c i s) =
     (case Option.bind (fmlookup (dialogs s) c) (\<lambda>dialogPair. currentItem (fst dialogPair) i) of
        Some t \<Rightarrow> connectionGraphicsObjects (addTextUnderConnection c t s)
      | None \<Rightarrow> connectionGraphicsObjects s)"
    by (auto simp: okButton_clicked_def Let_def connectionGraphicsObject_def
        intro!: frame(1) split: option.splits)
  show "textItems (okButton_clicked f c i s) =
     (case Option.bind (fmlookup (dialogs s) c) (\<lambda>dialogPair. currentItem (fst dialogPair) i) of
        Some t \<Rightarrow> textItems (addTextUnderConnection c t s)
      | None \<Rightarrow> textItems s)"
    by (auto simp: okButton_clicked_def Let_def connectionGraphicsObject_def
        intro!: frame(2) split: option.splits)
  show "sceneTextItems (okButton_clicked f c i s) =
     (case Option.bind (fmlookup (dialogs s) c) (\<lambda>dialogPair. currentItem (fst dialogPair) i) of
        Some t \<Rightarrow> sceneTextItems (addTextUnderConnection c t s)
      | None \<Rightarrow> sceneTextItems s)"
    by (auto simp: okButton_clicked_def Let_def connectionGraphicsObject_def
        intro!: frame(3) split: option.splits)
  show "nextHandle (okButton_clicked f c i s) =
     (case Option.bind (fmlookup (dialogs s) c) (\<lambda>dialogPair. currentItem (fst dialogPair) i) of
        Some t \<Rightarrow> nextHandle (addTextUnderConnection c t s)
      | None \<Rightarrow> nextHandle s)"
    by (auto simp: okButton_clicked_def Let_def connectionGraphicsObject_def
        intro!: frame(4) split: option.splits)
qed

lemma okButton_clicked_handles:
  "nextHandle s \<le> nextHandle (okButton_clicked f c i s)"
  "connectionGraphicsObjects (okButton_clicked f c i s) c' = Some obj \<Longrightarrow>
     \<exists>obj'. connectionGraphicsObjects s c' = Some obj' \<and> cgoHandle obj' = cgoHandle obj"
  using addTextUnderConnection_handles(1) [of s c] addTextUnderConnection_handles(2) [of c _ s c' obj]
  by (auto simp: okButton_clicked_registry split: option.splits)

lemma okButton_clicked_selected:
  assumes "fmlookup (dialogs s) c = Some dialogPair"
    and "currentItem (fst dialogPair) i = Some t"
    and "connectionGraphicsObjects s c = Some co"
  shows
    "textItems (okButton_clicked f c i s) = (textItems s)(c \<mapsto> nextHandle s)"
    "sceneTextItems (okButton_clicked f c i s) =
       (sceneTextItems s)(nextHandle s \<mapsto>
          \<lparr>toPlainText = t, pos = labelPosition (endPointIn s (cgoHandle co)),
           defaultTextColor = white, font = (''Arial'', 10)\<rparr>)"
    "connectionGraphicsObjects (okButton_clicked f c i s) =
       (connectionGraphicsObjects s)(c \<mapsto> co\<lparr>positionChanged := positionChanged co @ [nextHandle s]\<rparr>)"
    "nextHandle (okButton_clicked f c i s) = Suc (nextHandle s)"
    "dialogs (okButton_clicked f c i s) = fmupd c (fst dialogPair, t) (dialogs s)"
  using assms
  by (simp_all add: okButton_clicked_registry okButton_clicked_dialogs addTextUnderConnection_present)

lemma initialScene_fields [simp]:
  "nodeGraphicsObjects initialScene = Map.empty"
  "connectionGraphicsObjects initialScene = Map.empty"
  "draftConnection initialScene = None"
  "nodeDrag initialScene = False"
  "orientation initialScene = Horizontal"
  "nodeGeometry initialScene = DefaultHorizontalNodeGeometry"
  "m_record initialScene = []"
  "dialogs initialScene = fmempty"
  "textItems initialScene = Map.empty"
  "sceneTextItems initialScene = Map.empty"
  "nextHandle initialScene = 0"
  "effects initialScene = []"
  by (simp_all add: initialScene_def)

subsection \<open>The traversal and the reset\<close>

lemma fold_insertNode_fields [simp]:
  "connectionGraphicsObjects (fold insertNode ns s) = connectionGraphicsObjects s"
  "draftConnection (fold insertNode ns s) = draftConnection s"
  "nodeGeometry (fold insertNode ns s) = nodeGeometry s"
  "nodeDrag (fold insertNode ns s) = nodeDrag s"
  "orientation (fold insertNode ns s) = orientation s"
  "m_record (fold insertNode ns s) = m_record s"
  "dialogs (fold insertNode ns s) = dialogs s"
  "textItems (fold insertNode ns s) = textItems s"
  "sceneTextItems (fold insertNode ns s) = sceneTextItems s"
  "endPointIn (fold insertNode ns s) = endPointIn s"
  "nextHandle (fold insertNode ns s) = nextHandle s + length ns"
  by (induction ns arbitrary: s; simp)+

lemma fold_insertConnection_fields [simp]:
  "nodeGraphicsObjects (fold insertConnection cs s) = nodeGraphicsObjects s"
  "draftConnection (fold insertConnection cs s) = draftConnection s"
  "nodeGeometry (fold insertConnection cs s) = nodeGeometry s"
  "nodeDrag (fold insertConnection cs s) = nodeDrag s"
  "orientation (fold insertConnection cs s) = orientation s"
  "m_record (fold insertConnection cs s) = m_record s"
  "dialogs (fold insertConnection cs s) = dialogs s"
  "textItems (fold insertConnection cs s) = textItems s"
  "sceneTextItems (fold insertConnection cs s) = sceneTextItems s"
  "endPointIn (fold insertConnection cs s) = endPointIn s"
  "nextHandle (fold insertConnection cs s) = nextHandle s + length cs"
  by (induction cs arbitrary: s; simp)+

text \<open>The nested loops of the second pass insert the connections of the node, port by port.\<close>

lemma fold_fold_concat: "fold (\<lambda>i. fold f (h i)) is s = fold f (concat (map h is)) s"
  by (induction "is" arbitrary: s) simp_all

lemma insertOutConnections_eq:
  "insertOutConnections g n s = fold insertConnection (outConnections g n) s"
  by (simp add: insertOutConnections_def outConnections_def fold_fold_concat)

lemma traverse_eq:
  "traverseGraphAndPopulateGraphicsObjects g s =
     fold insertConnection (allOutConnections g) (fold insertNode (allNodeIds g) s)"
proof -
  have "insertOutConnections g = (\<lambda>n. fold insertConnection (outConnections g n))"
    by (rule ext)+ (simp add: insertOutConnections_eq)
  then show ?thesis
    by (simp add: traverseGraphAndPopulateGraphicsObjects_def allOutConnections_def fold_fold_concat)
qed

lemma fold_insertNode_effects:
  "effects (fold insertNode ns s) =
     effects s @ map (\<lambda>(h, n). NewNodeGraphicsObject h n) (zip [nextHandle s..<nextHandle s + length ns] ns)"
proof (induction ns arbitrary: s)
  case Nil
  show ?case by simp
next
  case (Cons n ns)
  have "[nextHandle s..<nextHandle s + Suc (length ns)] =
        nextHandle s # [Suc (nextHandle s)..<Suc (nextHandle s) + length ns]"
    by (simp add: upt_rec)
  then show ?case by (simp add: Cons.IH)
qed

lemma fold_insertConnection_effects:
  "effects (fold insertConnection cs s) =
     effects s @ map (\<lambda>(h, c). NewConnectionGraphicsObject h c) (zip [nextHandle s..<nextHandle s + length cs] cs)"
proof (induction cs arbitrary: s)
  case Nil
  show ?case by simp
next
  case (Cons c cs)
  have "[nextHandle s..<nextHandle s + Suc (length cs)] =
        nextHandle s # [Suc (nextHandle s)..<Suc (nextHandle s) + length cs]"
    by (simp add: upt_rec)
  then show ?case by (simp add: Cons.IH)
qed

lemma fold_insertNode_dom:
  "dom (nodeGraphicsObjects (fold insertNode ns s)) = dom (nodeGraphicsObjects s) \<union> set ns"
  by (induction ns arbitrary: s) auto

lemma fold_insertConnection_dom:
  "dom (connectionGraphicsObjects (fold insertConnection cs s)) = dom (connectionGraphicsObjects s) \<union> set cs"
  by (induction cs arbitrary: s) auto

lemma traverse_effects:
  "effects (traverseGraphAndPopulateGraphicsObjects g s) =
     effects s
     @ map (\<lambda>(h, n). NewNodeGraphicsObject h n)
         (zip [nextHandle s..<nextHandle s + length (allNodeIds g)] (allNodeIds g))
     @ map (\<lambda>(h, c). NewConnectionGraphicsObject h c)
         (zip [nextHandle s + length (allNodeIds g)..<
               nextHandle s + length (allNodeIds g) + length (allOutConnections g)]
              (allOutConnections g))"
  by (simp add: traverse_eq fold_insertConnection_effects fold_insertNode_effects)

lemma traverse_fields [simp]:
  "draftConnection (traverseGraphAndPopulateGraphicsObjects g s) = draftConnection s"
  "nodeGeometry (traverseGraphAndPopulateGraphicsObjects g s) = nodeGeometry s"
  "nodeDrag (traverseGraphAndPopulateGraphicsObjects g s) = nodeDrag s"
  "orientation (traverseGraphAndPopulateGraphicsObjects g s) = orientation s"
  "m_record (traverseGraphAndPopulateGraphicsObjects g s) = m_record s"
  "dialogs (traverseGraphAndPopulateGraphicsObjects g s) = dialogs s"
  "textItems (traverseGraphAndPopulateGraphicsObjects g s) = textItems s"
  "sceneTextItems (traverseGraphAndPopulateGraphicsObjects g s) = sceneTextItems s"
  "endPointIn (traverseGraphAndPopulateGraphicsObjects g s) = endPointIn s"
  "nextHandle (traverseGraphAndPopulateGraphicsObjects g s) =
     nextHandle s + length (allNodeIds g) + length (allOutConnections g)"
  "nodeGraphicsObjects (traverseGraphAndPopulateGraphicsObjects g s) =
     nodeGraphicsObjects (fold insertNode (allNodeIds g) s)"
  by (simp_all add: traverse_eq)

lemma traverse_connections:
  "connectionGraphicsObjects (traverseGraphAndPopulateGraphicsObjects g s) =
     connectionGraphicsObjects
       (fold insertConnection (allOutConnections g)
          (s\<lparr>nextHandle := nextHandle s + length (allNodeIds g)\<rparr>))"
proof -
  have gen: "connectionGraphicsObjects s1 = connectionGraphicsObjects s2 \<Longrightarrow> nextHandle s1 = nextHandle s2 \<Longrightarrow>
     connectionGraphicsObjects (fold insertConnection cs s1) = connectionGraphicsObjects (fold insertConnection cs s2)"
    for cs s1 s2
    by (induction cs arbitrary: s1 s2) simp_all
  show ?thesis
    unfolding traverse_eq by (rule gen) simp_all
qed

lemma traverse_no_NodeMoved:
  "filter is_NodeMoved (effects (traverseGraphAndPopulateGraphicsObjects g s)) =
     filter is_NodeMoved (effects s)"
  by (auto simp: traverse_effects filter_empty_conv)

lemma fold_insertNode_lookup:
  "nodeGraphicsObjects (fold insertNode ns s) n = Some obj \<Longrightarrow>
   nodeGraphicsObjects s n = Some obj \<and> n \<notin> set ns
   \<or> n \<in> set ns \<and> nextHandle s \<le> ngoHandle obj \<and> ngoHandle obj < nextHandle s + length ns"
proof (induction ns arbitrary: s)
  case Nil
  then show ?case by simp
next
  case (Cons a ns)
  from Cons.IH [of "insertNode a s"] Cons.prems
  show ?case by (auto split: if_splits)
qed

lemma fold_insertConnection_lookup:
  "connectionGraphicsObjects (fold insertConnection cs s) c = Some obj \<Longrightarrow>
   connectionGraphicsObjects s c = Some obj \<and> c \<notin> set cs
   \<or> c \<in> set cs \<and> nextHandle s \<le> cgoHandle obj \<and> cgoHandle obj < nextHandle s + length cs"
proof (induction cs arbitrary: s)
  case Nil
  then show ?case by simp
next
  case (Cons a cs)
  from Cons.IH [of "insertConnection a s"] Cons.prems
  show ?case by (auto split: if_splits)
qed

lemma fold_insertNode_registered:
  "n \<in> set ns \<Longrightarrow>
   \<exists>i<length ns. ns ! i = n \<and>
     nodeGraphicsObjects (fold insertNode ns s) n = Some \<lparr>ngoHandle = nextHandle s + i, ngoNodeId = n\<rparr>"
proof (induction ns rule: rev_induct)
  case Nil
  then show ?case by simp
next
  case (snoc a ns)
  show ?case
  proof (cases "n = a")
    case True
    then show ?thesis
      by (intro exI [of _ "length ns"]) simp
  next
    case False
    with snoc obtain i where "i < length ns" "ns ! i = n"
      "nodeGraphicsObjects (fold insertNode ns s) n = Some \<lparr>ngoHandle = nextHandle s + i, ngoNodeId = n\<rparr>"
      by auto
    with False show ?thesis
      by (intro exI [of _ i]) (simp add: nth_append)
  qed
qed

lemma fold_insertNode_step:
  assumes "i < length ns"
  shows "nodeGraphicsObjects (fold insertNode (take (Suc i) ns) s) (ns ! i) =
           Some \<lparr>ngoHandle = nextHandle s + i, ngoNodeId = ns ! i\<rparr>"
  using assms by (simp add: take_Suc_conv_app_nth)

lemma fold_insertConnection_step:
  assumes "k < length cs"
  shows "connectionGraphicsObjects (insertConnection (cs ! k) (fold insertConnection (take k cs) s)) (cs ! k) =
           Some \<lparr>cgoHandle = nextHandle s + k, connectionId_of = cs ! k,
                 doubleClicked = [], positionChanged = []\<rparr>"
    and "fold insertConnection (take (Suc k) cs) s = insertConnection (cs ! k) (fold insertConnection (take k cs) s)"
  using assms by (simp_all add: take_Suc_conv_app_nth)

lemma onModelReset_fields [simp]:
  "draftConnection (onModelReset g s) = draftConnection s"
  "nodeGeometry (onModelReset g s) = nodeGeometry s"
  "nodeDrag (onModelReset g s) = nodeDrag s"
  "orientation (onModelReset g s) = orientation s"
  "m_record (onModelReset g s) = m_record s"
  "dialogs (onModelReset g s) = dialogs s"
  "textItems (onModelReset g s) = textItems s"
  "sceneTextItems (onModelReset g s) = Map.empty"
  "endPointIn (onModelReset g s) = endPointIn s"
  "nextHandle (onModelReset g s) = nextHandle s + length (allNodeIds g) + length (allOutConnections g)"
  by (simp_all add: onModelReset_def)

lemma onModelReset_dom:
  "dom (nodeGraphicsObjects (onModelReset g s)) = set (allNodeIds g)"
  "dom (connectionGraphicsObjects (onModelReset g s)) = set (allOutConnections g)"
  by (simp_all add: onModelReset_def fold_insertNode_dom traverse_connections fold_insertConnection_dom)

lemma onModelReset_new_nodes:
  "nodeGraphicsObjects (onModelReset g s) n = Some obj \<Longrightarrow>
   nextHandle s \<le> ngoHandle obj \<and> ngoHandle obj < nextHandle (onModelReset g s)"
  using fold_insertNode_lookup [of "allNodeIds g"
      "s\<lparr>connectionGraphicsObjects := Map.empty, nodeGraphicsObjects := Map.empty, sceneTextItems := Map.empty\<rparr>" n obj]
  by (auto simp: onModelReset_def)

lemma onModelReset_new_connections:
  "connectionGraphicsObjects (onModelReset g s) c = Some obj \<Longrightarrow>
   nextHandle s \<le> cgoHandle obj \<and> cgoHandle obj < nextHandle (onModelReset g s)"
  using fold_insertConnection_lookup [of "allOutConnections g"
      "s\<lparr>connectionGraphicsObjects := Map.empty, nodeGraphicsObjects := Map.empty, sceneTextItems := Map.empty,
         nextHandle := nextHandle s + length (allNodeIds g)\<rparr>" c obj]
  by (auto simp: onModelReset_def traverse_connections)

subsection \<open>Invariants of reachable scenes\<close>

lemma handles_allocated_step:
  assumes "handles_allocated s"
    and "nextHandle s \<le> nextHandle s'"
    and "\<And>n obj. nodeGraphicsObjects s' n = Some obj \<Longrightarrow>
           nodeGraphicsObjects s n = Some obj \<or> ngoHandle obj < nextHandle s'"
    and "\<And>c obj. connectionGraphicsObjects s' c = Some obj \<Longrightarrow>
           (\<exists>obj'. connectionGraphicsObjects s c = Some obj' \<and> cgoHandle obj' = cgoHandle obj)
           \<or> cgoHandle obj < nextHandle s'"
  shows "handles_allocated s'"
  unfolding handles_allocated_def
proof (intro conjI allI impI)
  fix n obj
  assume "nodeGraphicsObjects s' n = Some obj"
  from assms(3) [OF this] assms(1,2) show "ngoHandle obj < nextHandle s'"
    unfolding handles_allocated_def by (meson less_le_trans)
next
  fix c obj
  assume "connectionGraphicsObjects s' c = Some obj"
  from assms(4) [OF this] assms(1,2) show "cgoHandle obj < nextHandle s'"
    unfolding handles_allocated_def by (metis less_le_trans)
qed

lemma handles_allocated_onModelReset: "handles_allocated (onModelReset g s)"
  unfolding handles_allocated_def
  using onModelReset_new_nodes [of g s] onModelReset_new_connections [of g s] by blast

lemma handles_allocated_constructor: "handles_allocated (BasicGraphicsScene g)"
proof -
  have "BasicGraphicsScene g = onModelReset g initialScene"
    by (simp add: BasicGraphicsScene_def onModelReset_def initialScene_def)
  then show ?thesis by (simp add: handles_allocated_onModelReset)
qed

lemma reachable_handles_allocated: "reachable s \<Longrightarrow> handles_allocated s"
proof (induction rule: reachable.induct)
  case (r_constructor g)
  show ?case by (rule handles_allocated_constructor)
next
  case (r_makeDraftConnection s cid)
  from r_makeDraftConnection.IH show ?case by (rule handles_allocated_step) auto
next
  case (r_resetDraftConnection s)
  from r_resetDraftConnection.IH show ?case
    by (rule handles_allocated_step) (auto simp: resetDraftConnection_def)
next
  case (r_getRecordTemplates s rs)
  from r_getRecordTemplates.IH show ?case
    by (rule handles_allocated_step) (auto simp: getRecordTemplates_def)
next
  case (r_setOrientation s g orientation')
  from r_setOrientation.IH show ?case
    by (simp add: setOrientation_def handles_allocated_onModelReset)
next
  case (r_onModelReset s g)
  show ?case by (rule handles_allocated_onModelReset)
next
  case (r_onConnectionCreated s cid)
  from r_onConnectionCreated.IH show ?case
    by (rule handles_allocated_step) (auto simp: onConnectionCreated_fields split: if_splits)
next
  case (r_onConnectionDeleted s cid s')
  note f = onConnectionDeleted_fields [OF r_onConnectionDeleted.hyps(2)]
  from r_onConnectionDeleted.IH show ?case
    by (rule handles_allocated_step) (auto simp: f split: if_splits)
next
  case (r_onNodeCreated s nodeId)
  from r_onNodeCreated.IH show ?case by (rule handles_allocated_step) (auto split: if_splits)
next
  case (r_onNodeDeleted s nodeId)
  from r_onNodeDeleted.IH show ?case by (rule handles_allocated_step) (auto split: if_splits)
next
  case (r_onNodePositionUpdated s g nodeId)
  from r_onNodePositionUpdated.IH show ?case by (rule handles_allocated_step) auto
next
  case (r_onNodeUpdated s nodeId)
  from r_onNodeUpdated.IH show ?case by (rule handles_allocated_step) auto
next
  case (r_onNodeClicked s g nodeId)
  from r_onNodeClicked.IH show ?case by (rule handles_allocated_step) auto
next
  case (r_openDialog s cid)
  from r_openDialog.IH show ?case
    by (rule handles_allocated_step) (auto simp: openDialog_nextHandle)
next
  case (r_okButton_clicked s getColorForHeader cid currentRow)
  from r_okButton_clicked.IH show ?case
    by (rule handles_allocated_step) (auto simp: okButton_clicked_handles)
next
  case (r_connection_positionChanged s cid p)
  from r_connection_positionChanged.IH show ?case by (rule handles_allocated_step) auto
next
  case (r_connection_doubleClicked s cid)
  from r_connection_doubleClicked.IH show ?case
    by (rule handles_allocated_step) (auto simp: connection_doubleClicked_nextHandle)
qed

text \<open>The same for the labels: first the steps that touch neither labels nor connections.\<close>

lemma endPointIn_unchanged [simp]:
  "endPointIn (makeDraftConnection c s) = endPointIn s"
  "endPointIn (onNodeCreated n s) = endPointIn s"
  "endPointIn (onNodeDeleted n s) = endPointIn s"
  "endPointIn (onNodePositionUpdated g n s) = endPointIn s"
  "endPointIn (onNodeUpdated n s) = endPointIn s"
  "endPointIn (onNodeClicked g n s) = endPointIn s"
  "endPointIn (onConnectionCreated c s) = endPointIn s"
  "endPointIn (fold openDialog cs s) = endPointIn s"
  "endPointIn (fold insertConnection cs s) = endPointIn s"
  "endPointIn (fold insertNode ns s) = endPointIn s"
proof -
  show "endPointIn (fold openDialog cs s) = endPointIn s"
    by (induction cs arbitrary: s) simp_all
qed (auto simp: makeDraftConnection_def onNodeCreated_def onNodeDeleted_def onNodePositionUpdated_def
      onNodeUpdated_def onNodeClicked_def onConnectionCreated_def nodeGraphicsObject_def
      case_prod_unfold Let_def split: option.splits)

lemma labels_frame:
  assumes "slots_separate s \<and> labels_in_place s"
    and "connectionGraphicsObjects s' = connectionGraphicsObjects s"
    and "sceneTextItems s' = sceneTextItems s"
    and "endPointIn s' = endPointIn s"
    and "nextHandle s \<le> nextHandle s'"
  shows "slots_separate s' \<and> labels_in_place s'"
proof
  have old: "t < nextHandle s"
    if "connectionGraphicsObjects s c = Some co" "t \<in> set (positionChanged co)" for c co t
    using assms(1) that unfolding slots_separate_def by blast
  have new: "t < nextHandle s'"
    if "connectionGraphicsObjects s c = Some co" "t \<in> set (positionChanged co)" for c co t
    using old [OF that] assms(5) by simp
  show "slots_separate s'"
    using assms(1) new unfolding slots_separate_def assms(2) by blast
  show "labels_in_place s'"
    using assms(1) unfolding labels_in_place_def assms(2,3,4) by blast
qed

lemma labels_new_connection:
  assumes "slots_separate s \<and> labels_in_place s" and "handles_allocated s"
    and "connectionGraphicsObjects s' = (connectionGraphicsObjects s)(c \<mapsto> co)"
    and "cgoHandle co = nextHandle s" and "positionChanged co = []"
    and "sceneTextItems s' = sceneTextItems s"
    and "endPointIn s' = endPointIn s"
    and "nextHandle s \<le> nextHandle s'"
  shows "slots_separate s' \<and> labels_in_place s'"
proof
  have fresh: "cgoHandle co' \<noteq> nextHandle s" if "connectionGraphicsObjects s c' = Some co'" for c' co'
    using assms(2) that unfolding handles_allocated_def by fastforce
  show "slots_separate s'"
    unfolding slots_separate_def
  proof (intro conjI allI impI)
    fix c1 c2 co1 co2
    assume "connectionGraphicsObjects s' c1 = Some co1 \<and> connectionGraphicsObjects s' c2 = Some co2
        \<and> cgoHandle co1 = cgoHandle co2"
    then show "c1 = c2"
      using assms(1,3,4) fresh unfolding slots_separate_def
      by (auto split: if_splits)
  next
    fix c1 co1 t
    assume "connectionGraphicsObjects s' c1 = Some co1 \<and> t \<in> set (positionChanged co1)"
    then have "connectionGraphicsObjects s c1 = Some co1 \<and> t \<in> set (positionChanged co1)"
      using assms(3,5) by (auto split: if_splits)
    then have "t < nextHandle s"
      using assms(1) unfolding slots_separate_def by blast
    then show "t < nextHandle s'"
      using assms(8) by simp
  next
    fix c1 c2 co1 co2 t
    assume "connectionGraphicsObjects s' c1 = Some co1 \<and> connectionGraphicsObjects s' c2 = Some co2
        \<and> t \<in> set (positionChanged co1) \<and> t \<in> set (positionChanged co2)"
    then have "connectionGraphicsObjects s c1 = Some co1 \<and> connectionGraphicsObjects s c2 = Some co2
        \<and> t \<in> set (positionChanged co1) \<and> t \<in> set (positionChanged co2)"
      using assms(3,5) by (auto split: if_splits)
    then show "c1 = c2"
      using assms(1) unfolding slots_separate_def by blast
  qed
  show "labels_in_place s'"
    unfolding labels_in_place_def
  proof (intro allI impI)
    fix c1 co1 t item
    assume a: "connectionGraphicsObjects s' c1 = Some co1 \<and> t \<in> set (positionChanged co1)
        \<and> sceneTextItems s' t = Some item"
    then have "connectionGraphicsObjects s c1 = Some co1"
      using assms(3,5) by (auto split: if_splits)
    with a show "pos item = labelPosition (endPointIn s' (cgoHandle co1))"
      using assms(1,6,7) unfolding labels_in_place_def by auto
  qed
qed

lemma labels_insertConnection:
  assumes "slots_separate s \<and> labels_in_place s" and "handles_allocated s"
  shows "slots_separate (insertConnection c s) \<and> labels_in_place (insertConnection c s)"
  using assms
  by (rule labels_new_connection
      [where co = "\<lparr>cgoHandle = nextHandle s, connectionId_of = c, doubleClicked = [], positionChanged = []\<rparr>"])
    simp_all

lemma handles_allocated_insertConnection:
  "handles_allocated s \<Longrightarrow> handles_allocated (insertConnection c s)"
  by (rule handles_allocated_step) (auto split: if_splits)

lemma labels_fold_insertConnection:
  "slots_separate s \<and> labels_in_place s \<Longrightarrow> handles_allocated s \<Longrightarrow>
   slots_separate (fold insertConnection cs s) \<and> labels_in_place (fold insertConnection cs s)"
proof (induction cs arbitrary: s)
  case Nil
  then show ?case by simp
next
  case (Cons c cs)
  from Cons.prems have "slots_separate (insertConnection c s) \<and> labels_in_place (insertConnection c s)"
    by (rule labels_insertConnection)
  moreover from Cons.prems(2) have "handles_allocated (insertConnection c s)"
    by (rule handles_allocated_insertConnection)
  ultimately show ?case
    using Cons.IH [of "insertConnection c s"] by simp
qed

lemma labels_onModelReset:
  "slots_separate (onModelReset g s) \<and> labels_in_place (onModelReset g s)"
proof -
  let ?s0 = "fold insertNode (allNodeIds g)
      (s\<lparr>connectionGraphicsObjects := Map.empty, nodeGraphicsObjects := Map.empty, sceneTextItems := Map.empty\<rparr>)"
  have "slots_separate ?s0 \<and> labels_in_place ?s0"
    by (simp add: slots_separate_def labels_in_place_def)
  moreover have "handles_allocated ?s0"
    unfolding handles_allocated_def
    using fold_insertNode_lookup [of "allNodeIds g"
        "s\<lparr>connectionGraphicsObjects := Map.empty, nodeGraphicsObjects := Map.empty, sceneTextItems := Map.empty\<rparr>"]
    by fastforce
  ultimately show ?thesis
    unfolding onModelReset_def traverse_eq by (rule labels_fold_insertConnection)
qed

lemma labels_addTextUnderConnection:
  assumes "slots_separate s \<and> labels_in_place s"
  shows "slots_separate (addTextUnderConnection c t s) \<and> labels_in_place (addTextUnderConnection c t s)"
proof (cases "connectionGraphicsObjects s c")
  case None
  with assms show ?thesis by (simp add: addTextUnderConnection_absent)
next
  case (Some co)
  note p = addTextUnderConnection_present [OF Some, of t]
  let ?s' = "addTextUnderConnection c t s"
  have old: "t' < nextHandle s"
    if "connectionGraphicsObjects s c' = Some co'" "t' \<in> set (positionChanged co')" for c' co' t'
    using assms that unfolding slots_separate_def by blast
  have sep1: "c1 = c2"
    if "connectionGraphicsObjects s c1 = Some co1" "connectionGraphicsObjects s c2 = Some co2"
      "cgoHandle co1 = cgoHandle co2" for c1 c2 co1 co2
    using assms that unfolding slots_separate_def by blast
  have sep3: "c1 = c2"
    if "connectionGraphicsObjects s c1 = Some co1" "connectionGraphicsObjects s c2 = Some co2"
      "t' \<in> set (positionChanged co1)" "t' \<in> set (positionChanged co2)" for c1 c2 co1 co2 t'
    using assms that unfolding slots_separate_def by blast
  have place: "pos item = labelPosition (endPointIn s (cgoHandle co1))"
    if "connectionGraphicsObjects s c1 = Some co1" "t' \<in> set (positionChanged co1)"
      "sceneTextItems s t' = Some item" for c1 co1 t' item
    using assms that unfolding labels_in_place_def by blast
  show ?thesis
  proof
    show "slots_separate ?s'"
      unfolding slots_separate_def
    proof (intro conjI allI impI)
      fix c1 c2 co1 co2
      assume a: "connectionGraphicsObjects ?s' c1 = Some co1 \<and> connectionGraphicsObjects ?s' c2 = Some co2
          \<and> cgoHandle co1 = cgoHandle co2"
      show "c1 = c2"
      proof (rule ccontr)
        assume ne: "c1 \<noteq> c2"
        from a ne obtain co1' co2' where "connectionGraphicsObjects s c1 = Some co1'"
          "connectionGraphicsObjects s c2 = Some co2'" "cgoHandle co1' = cgoHandle co2'"
          using Some unfolding p by (auto split: if_splits)
        with sep1 ne show False by blast
      qed
    next
      fix c1 co1 t'
      assume "connectionGraphicsObjects ?s' c1 = Some co1 \<and> t' \<in> set (positionChanged co1)"
      then show "t' < nextHandle ?s'"
        using old Some unfolding p by (fastforce split: if_splits)
    next
      fix c1 c2 co1 co2 t'
      assume a: "connectionGraphicsObjects ?s' c1 = Some co1 \<and> connectionGraphicsObjects ?s' c2 = Some co2
          \<and> t' \<in> set (positionChanged co1) \<and> t' \<in> set (positionChanged co2)"
      show "c1 = c2"
      proof (rule ccontr)
        assume ne: "c1 \<noteq> c2"
        from a ne Some consider
          (l) "c1 = c" "connectionGraphicsObjects s c2 = Some co2"
              "t' \<in> set (positionChanged co) \<or> t' = nextHandle s" "t' \<in> set (positionChanged co2)"
          | (r) "c2 = c" "connectionGraphicsObjects s c1 = Some co1"
              "t' \<in> set (positionChanged co) \<or> t' = nextHandle s" "t' \<in> set (positionChanged co1)"
          | (n) "connectionGraphicsObjects s c1 = Some co1" "connectionGraphicsObjects s c2 = Some co2"
              "t' \<in> set (positionChanged co1)" "t' \<in> set (positionChanged co2)"
          unfolding p by (auto split: if_splits)
        then show False
        proof cases
          case l
          from old [OF l(2) l(4)] l(3) have "t' \<in> set (positionChanged co)" by auto
          with sep3 [OF Some l(2) _ l(4)] l(1) ne show False by simp
        next
          case r
          from old [OF r(2) r(4)] r(3) have "t' \<in> set (positionChanged co)" by auto
          with sep3 [OF Some r(2) _ r(4)] r(1) ne show False by simp
        next
          case n
          with sep3 [OF n(1) n(2) n(3) n(4)] ne show False by simp
        qed
      qed
    qed
    show "labels_in_place ?s'"
      unfolding labels_in_place_def
    proof (intro allI impI)
      fix c1 co1 t' item
      assume a: "connectionGraphicsObjects ?s' c1 = Some co1 \<and> t' \<in> set (positionChanged co1)
          \<and> sceneTextItems ?s' t' = Some item"
      show "pos item = labelPosition (endPointIn ?s' (cgoHandle co1))"
      proof (cases "t' = nextHandle s")
        case True
        have "c1 = c"
        proof (rule ccontr)
          assume "c1 \<noteq> c"
          with a have "connectionGraphicsObjects s c1 = Some co1" unfolding p by simp
          with a old [of c1 co1 t'] True show False by simp
        qed
        with a True show ?thesis unfolding p by auto
      next
        case False
        with a have live: "sceneTextItems s t' = Some item" unfolding p by simp
        show ?thesis
        proof (cases "c1 = c")
          case True
          with a \<open>t' \<noteq> nextHandle s\<close> have "t' \<in> set (positionChanged co)" "cgoHandle co1 = cgoHandle co"
            unfolding p by auto
          with place [OF Some _ live] show ?thesis by simp
        next
          case False
          with a have "connectionGraphicsObjects s c1 = Some co1" unfolding p by simp
          with a place [OF _ _ live] show ?thesis by simp
        qed
      qed
    qed
  qed
qed

lemma fold_positionChanged_slot_keep:
  "t \<notin> set ts \<Longrightarrow>
   sceneTextItems (fold (\<lambda>t. positionChanged_slot t h) ts s) t = sceneTextItems s t"
  by (induction ts arbitrary: s) (auto simp: positionChanged_slot_def split: option.splits)

lemma fold_positionChanged_slot_pos:
  "sceneTextItems s t = Some item \<Longrightarrow> t \<in> set ts \<Longrightarrow>
   sceneTextItems (fold (\<lambda>t. positionChanged_slot t h) ts s) t =
     Some (item\<lparr>pos := labelPosition (endPointIn s h)\<rparr>)"
proof (induction ts arbitrary: s item)
  case Nil
  then show ?case by simp
next
  case (Cons a ts)
  show ?case
  proof (cases "a = t")
    case True
    let ?s' = "positionChanged_slot t h s"
    let ?item' = "item\<lparr>pos := labelPosition (endPointIn s h)\<rparr>"
    have live: "sceneTextItems ?s' t = Some ?item'"
      using Cons.prems(1) by (simp add: positionChanged_slot_live)
    show ?thesis
    proof (cases "t \<in> set ts")
      case True
      from Cons.IH [OF live True] \<open>a = t\<close> show ?thesis by simp
    next
      case False
      from fold_positionChanged_slot_keep [OF False, of h ?s'] live \<open>a = t\<close> show ?thesis by simp
    qed
  next
    case False
    let ?s' = "positionChanged_slot a h s"
    have "sceneTextItems ?s' t = Some item"
      using Cons.prems(1) False by (auto simp: positionChanged_slot_def split: option.splits)
    moreover have "t \<in> set ts"
      using Cons.prems(2) False by simp
    ultimately show ?thesis
      using Cons.IH [of ?s' item] by simp
  qed
qed

lemma positionChanged_slot_dom:
  "sceneTextItems (positionChanged_slot a h s) t = None \<longleftrightarrow> sceneTextItems s t = None"
  by (cases "sceneTextItems s a") (simp_all add: positionChanged_slot_def)

lemma fold_positionChanged_slot_dead:
  "sceneTextItems s t = None \<Longrightarrow>
   sceneTextItems (fold (\<lambda>t. positionChanged_slot t h) ts s) t = None"
  by (induction ts arbitrary: s) (simp_all add: positionChanged_slot_dom)

text \<open>
  Raising the position-changed notification of a connection runs the connected slots:
  every label connected to it that is still alive then sits at the offset from the new
  endpoint.
\<close>

lemma connection_positionChanged_moves_labels:
  assumes "connectionGraphicsObjects s cid = Some co"
    and "t \<in> set (positionChanged co)"
    and "sceneTextItems s t = Some item"
  shows "sceneTextItems (connection_positionChanged cid p s) t = Some (item\<lparr>pos := labelPosition p\<rparr>)"
  using assms fold_positionChanged_slot_pos
    [of "s\<lparr>endPointIn := (endPointIn s)(cgoHandle co := p)\<rparr>" t item "positionChanged co" "cgoHandle co"]
  by (simp add: connection_positionChanged_def)

lemma connection_positionChanged_endPointIn:
  "endPointIn (connection_positionChanged cid p s) =
     (case connectionGraphicsObjects s cid of
        Some co \<Rightarrow> (endPointIn s)(cgoHandle co := p) | None \<Rightarrow> endPointIn s)"
  by (simp add: connection_positionChanged_def split: option.splits)

lemma connection_positionChanged_others:
  assumes "connectionGraphicsObjects s cid = Some co" and "t \<notin> set (positionChanged co)"
  shows "sceneTextItems (connection_positionChanged cid p s) t = sceneTextItems s t"
  using assms by (simp add: connection_positionChanged_def fold_positionChanged_slot_keep)

lemma labels_connection_positionChanged:
  assumes "slots_separate s \<and> labels_in_place s"
  shows "slots_separate (connection_positionChanged cid p s)
         \<and> labels_in_place (connection_positionChanged cid p s)"
proof (cases "connectionGraphicsObjects s cid")
  case None
  with assms show ?thesis by (simp add: connection_positionChanged_def)
next
  case (Some co)
  let ?s' = "connection_positionChanged cid p s"
  show ?thesis
  proof
    show "slots_separate ?s'"
      using assms unfolding slots_separate_def by simp
    show "labels_in_place ?s'"
      unfolding labels_in_place_def
    proof (intro allI impI)
      fix c1 co1 t item
      assume "connectionGraphicsObjects ?s' c1 = Some co1 \<and> t \<in> set (positionChanged co1)
          \<and> sceneTextItems ?s' t = Some item"
      then have c1: "connectionGraphicsObjects s c1 = Some co1" and t: "t \<in> set (positionChanged co1)"
        and live: "sceneTextItems ?s' t = Some item"
        by simp_all
      show "pos item = labelPosition (endPointIn ?s' (cgoHandle co1))"
      proof (cases "c1 = cid")
        case True
        with c1 Some have eq: "co1 = co" by simp
        from live obtain item0 where item0: "sceneTextItems s t = Some item0"
          using fold_positionChanged_slot_dead [of "s\<lparr>endPointIn := (endPointIn s)(cgoHandle co := p)\<rparr>" t
              "cgoHandle co" "positionChanged co"] Some
          by (cases "sceneTextItems s t") (auto simp: connection_positionChanged_def)
        from connection_positionChanged_moves_labels [OF Some _ item0, of p] t eq live
        show ?thesis
          by (auto simp: connection_positionChanged_endPointIn Some)
      next
        case False
        with assms c1 Some have h: "cgoHandle co1 \<noteq> cgoHandle co"
          unfolding slots_separate_def by blast
        from False assms c1 Some t have "t \<notin> set (positionChanged co)"
          unfolding slots_separate_def by blast
        with live Some have "sceneTextItems s t = Some item"
          by (simp add: connection_positionChanged_others)
        with assms c1 t have "pos item = labelPosition (endPointIn s (cgoHandle co1))"
          unfolding labels_in_place_def by blast
        with h show ?thesis
          by (simp add: connection_positionChanged_endPointIn Some)
      qed
    qed
  qed
qed

lemma reachable_labels: "reachable s \<Longrightarrow> slots_separate s \<and> labels_in_place s"
proof (induction rule: reachable.induct)
  case (r_constructor g)
  have "BasicGraphicsScene g = onModelReset g initialScene"
    by (simp add: BasicGraphicsScene_def onModelReset_def initialScene_def)
  then show ?case by (simp add: labels_onModelReset)
next
  case (r_makeDraftConnection s cid)
  from r_makeDraftConnection.IH show ?case by (rule labels_frame) simp_all
next
  case (r_resetDraftConnection s)
  from r_resetDraftConnection.IH show ?case
    by (rule labels_frame) (simp_all add: resetDraftConnection_def)
next
  case (r_getRecordTemplates s rs)
  from r_getRecordTemplates.IH show ?case
    by (rule labels_frame) (simp_all add: getRecordTemplates_def)
next
  case (r_setOrientation s g orientation')
  from r_setOrientation.IH show ?case
    by (simp add: setOrientation_def labels_onModelReset)
next
  case (r_onModelReset s g)
  show ?case by (rule labels_onModelReset)
next
  case (r_onConnectionCreated s cid)
  from r_onConnectionCreated.IH reachable_handles_allocated [OF r_onConnectionCreated.hyps]
  show ?case
    by (rule labels_new_connection
        [where co = "\<lparr>cgoHandle = nextHandle s, connectionId_of = cid, doubleClicked = [cid],
                      positionChanged = []\<rparr>"])
      (simp_all add: onConnectionCreated_fields)
next
  case (r_onConnectionDeleted s cid s')
  note f = onConnectionDeleted_fields [OF r_onConnectionDeleted.hyps(2)]
  have sub: "sceneTextItems s' t = Some item \<Longrightarrow> sceneTextItems s t = Some item" for t item
    unfolding f by (auto split: option.splits if_splits)
  show ?case
  proof
    show "slots_separate s'"
      using r_onConnectionDeleted.IH unfolding slots_separate_def f
      by (auto split: if_splits)
    have place: "pos item = labelPosition (endPointIn s (cgoHandle co))"
      if "connectionGraphicsObjects s c = Some co" "t \<in> set (positionChanged co)"
        "sceneTextItems s t = Some item" for c co t item
      using r_onConnectionDeleted.IH that unfolding labels_in_place_def by blast
    show "labels_in_place s'"
      unfolding labels_in_place_def f(2) f(8)
    proof (intro allI impI)
      fix c co t item
      assume a: "((connectionGraphicsObjects s)(cid := None)) c = Some co \<and> t \<in> set (positionChanged co)
          \<and> sceneTextItems s' t = Some item"
      then have c: "connectionGraphicsObjects s c = Some co"
        by (auto split: if_splits)
      from a have t: "t \<in> set (positionChanged co)" and live: "sceneTextItems s' t = Some item"
        by blast+
      from place [OF c t sub [OF live]] show "pos item = labelPosition (endPointIn s (cgoHandle co))" .
    qed
  qed
next
  case (r_onNodeCreated s nodeId)
  from r_onNodeCreated.IH show ?case by (rule labels_frame) simp_all
next
  case (r_onNodeDeleted s nodeId)
  from r_onNodeDeleted.IH show ?case by (rule labels_frame) simp_all
next
  case (r_onNodePositionUpdated s g nodeId)
  from r_onNodePositionUpdated.IH show ?case by (rule labels_frame) simp_all
next
  case (r_onNodeUpdated s nodeId)
  from r_onNodeUpdated.IH show ?case by (rule labels_frame) simp_all
next
  case (r_onNodeClicked s g nodeId)
  from r_onNodeClicked.IH show ?case by (rule labels_frame) simp_all
next
  case (r_openDialog s cid)
  from r_openDialog.IH show ?case
    by (rule labels_frame) (simp_all add: openDialog_nextHandle)
next
  case (r_okButton_clicked s getColorForHeader cid currentRow)
  let ?sel = "Option.bind (fmlookup (dialogs s) cid) (\<lambda>dialogPair. currentItem (fst dialogPair) currentRow)"
  show ?case
  proof (cases ?sel)
    case None
    from r_okButton_clicked.IH show ?thesis
      by (rule labels_frame) (simp_all add: okButton_clicked_registry None)
  next
    case (Some t)
    have "slots_separate (addTextUnderConnection cid t s) \<and> labels_in_place (addTextUnderConnection cid t s)"
      using r_okButton_clicked.IH by (rule labels_addTextUnderConnection)
    then show ?thesis
      by (rule labels_frame) (simp_all add: okButton_clicked_registry Some)
  qed
next
  case (r_connection_positionChanged s cid p)
  from r_connection_positionChanged.IH show ?case by (rule labels_connection_positionChanged)
next
  case (r_connection_doubleClicked s cid)
  from r_connection_doubleClicked.IH show ?case
    by (rule labels_frame)
      (simp_all add: connection_doubleClicked_nextHandle,
       simp add: connection_doubleClicked_def split: option.splits)
qed
subsection \<open>Queries and notifications\<close>

lemma fset_of_fmap_fmupd:
  "fset (fset_of_fmap (fmupd k v m)) = insert (k, v) (fset (fset_of_fmap (fmdrop k m)))"
  by (auto simp: fset_of_fmap_iff' split: if_splits)

lemma fset_of_fmap_fmempty: "fset (fset_of_fmap fmempty) = {}"
  by (auto simp: fset_of_fmap_iff')

lemma getConnections_fmupd:
  assumes "dialogs s' = fmupd cid dialogPair (dialogs s)"
  shows "getConnections s' =
           add_mset \<lparr>connectionId = cid, nodeIdOut = outNodeId cid, nodeIdIn = inNodeId cid,
                     portTypeIn = In, portTypeOut = Out, templateName = snd dialogPair\<rparr>
             (image_mset (\<lambda>(cid, dialogPair).
                  \<lparr>connectionId = cid, nodeIdOut = outNodeId cid, nodeIdIn = inNodeId cid,
                   portTypeIn = In, portTypeOut = Out, templateName = snd dialogPair\<rparr>)
                (mset_set (fset (fset_of_fmap (fmdrop cid (dialogs s))))))"
proof -
  have "(cid, dialogPair) \<notin> fset (fset_of_fmap (fmdrop cid (dialogs s)))"
    by (simp add: fset_of_fmap_iff')
  then show ?thesis
    by (simp add: getConnections_def assms fset_of_fmap_fmupd)
qed

lemma getConnections_new_key:
  assumes "dialogs s' = fmupd cid dialogPair (dialogs s)" and "fmlookup (dialogs s) cid = None"
  shows "getConnections s' =
           add_mset \<lparr>connectionId = cid, nodeIdOut = outNodeId cid, nodeIdIn = inNodeId cid,
                     portTypeIn = In, portTypeOut = Out, templateName = snd dialogPair\<rparr>
             (getConnections s)"
  using getConnections_fmupd [OF assms(1)] assms(2)
  by (simp add: fmdrop_absent getConnections_def)

lemma getConnections_empty: "dialogs s = fmempty \<Longrightarrow> getConnections s = {#}"
  by (simp add: getConnections_def fset_of_fmap_fmempty)

lemma getConnections_same: "dialogs s' = dialogs s \<Longrightarrow> getConnections s' = getConnections s"
  by (simp add: getConnections_def)

lemma getConnections_keys:
  "image_mset connectionId (getConnections s) = mset_set (fmdom' (dialogs s))"
proof -
  let ?G = "fset (fset_of_fmap (dialogs s))"
  have inj: "inj_on fst ?G"
    by (auto simp: inj_on_def fset_of_fmap_iff')
  have img: "fst ` ?G = fmdom' (dialogs s)"
  proof (intro set_eqI iffI)
    fix c
    assume "c \<in> fst ` ?G"
    then obtain v where "(c, v) \<in> ?G" by auto
    then show "c \<in> fmdom' (dialogs s)"
      by (simp add: fset_of_fmap_iff' fmlookup_dom'_iff)
  next
    fix c
    assume "c \<in> fmdom' (dialogs s)"
    then obtain v where "fmlookup (dialogs s) c = Some v"
      by (auto simp: fmlookup_dom'_iff)
    then have "(c, v) \<in> ?G"
      by (simp add: fset_of_fmap_iff')
    then show "c \<in> fst ` ?G"
      by (rule image_eqI [rotated]) simp
  qed
  have "image_mset connectionId (getConnections s) = image_mset fst (mset_set ?G)"
    by (simp add: getConnections_def multiset.map_comp comp_def case_prod_unfold)
  also have "\<dots> = mset_set (fst ` ?G)"
    using inj by (rule image_mset_mset_set)
  finally show ?thesis by (simp add: img)
qed

lemma getConnections_entry:
  assumes "e \<in># getConnections s"
  shows "portTypeOut e = Out \<and> portTypeIn e = In \<and> nodeIdOut e = outNodeId (connectionId e)
         \<and> nodeIdIn e = inNodeId (connectionId e)
         \<and> map_option snd (fmlookup (dialogs s) (connectionId e)) = Some (templateName e)"
proof -
  from assms obtain cid dialogPair where
    "(cid, dialogPair) \<in> fset (fset_of_fmap (dialogs s))"
    and e: "e = \<lparr>connectionId = cid, nodeIdOut = outNodeId cid, nodeIdIn = inNodeId cid,
                 portTypeIn = In, portTypeOut = Out, templateName = snd dialogPair\<rparr>"
    by (auto simp: getConnections_def)
  then have "fmlookup (dialogs s) cid = Some dialogPair"
    by (simp add: fset_of_fmap_iff')
  with e show ?thesis by simp
qed

lemma onConnectionCreated_never_emits_modified:
  "Modified \<in> set (effects (onConnectionCreated c s)) \<longleftrightarrow> Modified \<in> set (effects s)"
  by (simp add: onConnectionCreated_effects split: option.splits)

lemma other_structural_handlers_emit_modified:
  "last (effects (onNodeCreated n s)) = Modified"
  "nodeGraphicsObjects s n \<noteq> None \<Longrightarrow> last (effects (onNodeDeleted n s)) = Modified"
  "onConnectionDeleted c s = Inr s' \<Longrightarrow> last (effects s') = Modified"
  "last (effects (openDialog c s)) = Modified"
proof -
  show "onConnectionDeleted c s = Inr s' \<Longrightarrow> last (effects s') = Modified"
    using onConnectionDeleted_effects [of c s s'] by auto
  show "last (effects (openDialog c s)) = Modified"
    using openDialog_effects [of c s] by auto
qed simp_all

lemma onConnectionDeleted_tears_down:
  assumes "onConnectionDeleted c s = Inr s'"
  shows "connectionGraphicsObjects s' c = None"
    "fmlookup (dialogs s') c = None"
    "textItems s' c = None"
  by (simp_all add: onConnectionDeleted_fields [OF assms])

lemma onModelReset_keeps_annotations:
  "dialogs (onModelReset g s) = dialogs s"
  "textItems (onModelReset g s) = textItems s"
  "sceneTextItems (onModelReset g s) = Map.empty"
  by simp_all


subsection \<open>The example scenes\<close>

lemma modelABC_enum:
  "allNodeIds modelABC = [1, 2, 3]"
  "allOutConnections modelABC = [connAC]"
  "allNodeIds modelABC_unconnected = [1, 2, 3]"
  "allOutConnections modelABC_unconnected = []"
  "allNodeIds modelDangling = [1]"
  "allOutConnections modelDangling = [connA9]"
  by (simp_all add: allOutConnections_def outConnections_def modelABC_def modelABC_unconnected_def
      modelDangling_def)

lemma BasicGraphicsScene_modelABC_nodes:
  "nodeGraphicsObjects (BasicGraphicsScene modelABC) 1 = Some \<lparr>ngoHandle = 0, ngoNodeId = 1\<rparr>"
  "nodeGraphicsObjects (BasicGraphicsScene modelABC) 3 = Some \<lparr>ngoHandle = 2, ngoNodeId = 3\<rparr>"
  "nodeGraphicsObjects (BasicGraphicsScene modelABC_unconnected) 1 = Some \<lparr>ngoHandle = 0, ngoNodeId = 1\<rparr>"
  "nodeGraphicsObjects (BasicGraphicsScene modelABC_unconnected) 3 = Some \<lparr>ngoHandle = 2, ngoNodeId = 3\<rparr>"
  by (simp_all add: BasicGraphicsScene_def modelABC_enum)

lemma BasicGraphicsScene_modelABC_connections:
  "connectionGraphicsObjects (BasicGraphicsScene modelABC) connAC =
     Some \<lparr>cgoHandle = 3, connectionId_of = connAC, doubleClicked = [], positionChanged = []\<rparr>"
  "connectionGraphicsObjects (BasicGraphicsScene modelABC_unconnected) = Map.empty"
  "nextHandle (BasicGraphicsScene modelABC) = 4"
  "nextHandle (BasicGraphicsScene modelABC_unconnected) = 3"
  by (simp_all add: BasicGraphicsScene_def modelABC_enum traverse_connections)

lemma connectedScene_fields:
  "nodeGraphicsObjects connectedScene = nodeGraphicsObjects (BasicGraphicsScene modelABC_unconnected)"
  "connectionGraphicsObjects connectedScene connAC =
     Some \<lparr>cgoHandle = 3, connectionId_of = connAC, doubleClicked = [connAC], positionChanged = []\<rparr>"
  "dialogs connectedScene = fmempty"
  "textItems connectedScene = Map.empty"
  "sceneTextItems connectedScene = Map.empty"
  "nextHandle connectedScene = 4"
  "m_record connectedScene = []"
  "endPointIn connectedScene 3 = origin"
  by (simp_all add: connectedScene_def onConnectionCreated_fields BasicGraphicsScene_modelABC_connections
      BasicGraphicsScene_def onConnectionCreated_def case_prod_unfold Let_def initialScene_def origin_def
      modelABC_enum)

lemma connectedScene_effects:
  "effects connectedScene =
     [NewNodeGraphicsObject 0 1, NewNodeGraphicsObject 1 2, NewNodeGraphicsObject 2 3,
      NewConnectionGraphicsObject 3 connAC, NodeUpdate 0, NodeUpdate 2]"
proof -
  have u: "[0..<3] = [0, 1, 2]"
    by (simp add: upt_rec)
  have e: "effects (BasicGraphicsScene modelABC_unconnected) =
     [NewNodeGraphicsObject 0 1, NewNodeGraphicsObject 1 2, NewNodeGraphicsObject 2 3]"
    by (simp add: BasicGraphicsScene_def traverse_effects modelABC_enum u)
  have io: "outNodeId connAC = 1" "inNodeId connAC = 3"
    by (simp_all add: connAC_def)
  show ?thesis
    using BasicGraphicsScene_modelABC_nodes(3,4) BasicGraphicsScene_modelABC_connections(4) e io
    by (simp add: connectedScene_def onConnectionCreated_effects)
qed

lemma openedScene_fields:
  "connectionGraphicsObjects (openDialog connAC (getRecordTemplates templatesH connectedScene)) connAC =
     Some \<lparr>cgoHandle = 3, connectionId_of = connAC, doubleClicked = [connAC], positionChanged = []\<rparr>"
  "dialogs (openDialog connAC (getRecordTemplates templatesH connectedScene)) =
     fmupd connAC (selectDialog, '''') fmempty"
  "textItems (openDialog connAC (getRecordTemplates templatesH connectedScene)) = Map.empty"
  "sceneTextItems (openDialog connAC (getRecordTemplates templatesH connectedScene)) = Map.empty"
  "nextHandle (openDialog connAC (getRecordTemplates templatesH connectedScene)) = 5"
  "endPointIn (openDialog connAC (getRecordTemplates templatesH connectedScene)) 3 = origin"
  by (simp_all add: connectedScene_fields openDialog_dialogs openDialog_nextHandle
      getRecordTemplates_def templatesH_def selectDialog_def)

lemma annotatedScene_fields:
  "connectionGraphicsObjects annotatedScene connAC =
     Some \<lparr>cgoHandle = 3, connectionId_of = connAC, doubleClicked = [connAC], positionChanged = [5]\<rparr>"
  "dialogs annotatedScene = fmupd connAC (selectDialog, ''H'') fmempty"
  "textItems annotatedScene connAC = Some 5"
  "sceneTextItems annotatedScene 5 = Some labelH"
  "nextHandle annotatedScene = 6"
  "endPointIn annotatedScene = endPointIn connectedScene"
  "nodeGraphicsObjects annotatedScene = nodeGraphicsObjects (BasicGraphicsScene modelABC_unconnected)"
  "sceneTextItems annotatedScene 6 = None"
proof -
  let ?o = "openDialog connAC (getRecordTemplates templatesH connectedScene)"
  have d: "fmlookup (dialogs ?o) connAC = Some (selectDialog, '''')"
    by (simp add: openedScene_fields)
  have i: "currentItem (fst (selectDialog, '''')) (Some 0) = Some ''H''"
    by (simp add: currentItem_def selectDialog_def)
  note sel = okButton_clicked_selected [OF d i openedScene_fields(1), of greyForAll]
  show "connectionGraphicsObjects annotatedScene connAC =
     Some \<lparr>cgoHandle = 3, connectionId_of = connAC, doubleClicked = [connAC], positionChanged = [5]\<rparr>"
    by (simp add: annotatedScene_def sel openedScene_fields)
  show "dialogs annotatedScene = fmupd connAC (selectDialog, ''H'') fmempty"
    by (simp add: annotatedScene_def sel openedScene_fields)
  show "textItems annotatedScene connAC = Some 5"
    by (simp add: annotatedScene_def sel openedScene_fields)
  show "sceneTextItems annotatedScene 5 = Some labelH"
    using openedScene_fields(6)
    by (simp add: annotatedScene_def sel openedScene_fields(1-5) labelPosition_eq origin_def labelH_def)
  show "nextHandle annotatedScene = 6"
    by (simp add: annotatedScene_def sel openedScene_fields)
  show "endPointIn annotatedScene = endPointIn connectedScene"
    by (simp add: annotatedScene_def getRecordTemplates_def)
  show "nodeGraphicsObjects annotatedScene = nodeGraphicsObjects (BasicGraphicsScene modelABC_unconnected)"
    by (simp add: annotatedScene_def getRecordTemplates_def connectedScene_fields)
  show "sceneTextItems annotatedScene 6 = None"
    unfolding annotatedScene_def sel
    by (simp add: openDialog_nextHandle getRecordTemplates_def connectedScene_fields)
qed

lemma annotatedScene_getConnections:
  "getConnections annotatedScene =
     {#\<lparr>connectionId = connAC, nodeIdOut = 1, nodeIdIn = 3, portTypeIn = In, portTypeOut = Out,
        templateName = ''H''\<rparr>#}"
proof -
  have io: "outNodeId connAC = 1" "inNodeId connAC = 3"
    by (simp_all add: connAC_def)
  show ?thesis
    using getConnections_fmupd [of annotatedScene connAC "(selectDialog, ''H'')" connectedScene]
    by (simp add: annotatedScene_fields connectedScene_fields fset_of_fmap_fmempty io)
qed

lemma resetScene_fields:
  "connectionGraphicsObjects resetScene connAC = None"
  "dialogs resetScene = fmupd connAC (selectDialog, ''H'') fmempty"
  "textItems resetScene connAC = Some 5"
  "sceneTextItems resetScene 5 = None"
proof -
  show "connectionGraphicsObjects resetScene connAC = None"
    using onModelReset_dom(2) [of modelABC_unconnected annotatedScene]
    by (simp add: resetScene_def modelABC_enum domIff)
qed (simp_all add: resetScene_def annotatedScene_fields)

lemma replacedScene_fields:
  "connectionGraphicsObjects replacedScene connAC =
     Some \<lparr>cgoHandle = 6, connectionId_of = connAC, doubleClicked = [connAC], positionChanged = []\<rparr>"
  "textItems replacedScene connAC = Some 5"
  "sceneTextItems replacedScene 5 = Some labelH"
  by (simp_all add: replacedScene_def onConnectionCreated_fields annotatedScene_fields)

lemma movedScene_fields:
  "connectionGraphicsObjects movedScene connAC =
     Some \<lparr>cgoHandle = 6, connectionId_of = connAC, doubleClicked = [connAC], positionChanged = []\<rparr>"
  "textItems movedScene connAC = Some 5"
  "sceneTextItems movedScene 5 = Some labelH"
  "endPointIn movedScene 6 = \<lparr>xp = 100, yp = 20\<rparr>"
  by (simp_all add: movedScene_def replacedScene_fields connection_positionChanged_endPointIn
      connection_positionChanged_others)

lemma reachable_examples:
  "reachable connectedScene"
  "reachable annotatedScene"
  "reachable resetScene"
  "reachable replacedScene"
  "reachable movedScene"
  "reachable (onConnectionCreated connAB annotatedScene)"
  "reachable twoDialogsScene"
proof -
  show c: "reachable connectedScene"
    unfolding connectedScene_def
    by (rule reachable.r_onConnectionCreated) (rule reachable.r_constructor)
  show a: "reachable annotatedScene"
    unfolding annotatedScene_def
    by (intro reachable.r_okButton_clicked reachable.r_openDialog reachable.r_getRecordTemplates c)
  show "reachable resetScene"
    unfolding resetScene_def by (rule reachable.r_onModelReset) (rule a)
  show r: "reachable replacedScene"
    unfolding replacedScene_def by (rule reachable.r_onConnectionCreated) (rule a)
  show "reachable movedScene"
    unfolding movedScene_def by (rule reachable.r_connection_positionChanged) (rule r)
  show b: "reachable (onConnectionCreated connAB annotatedScene)"
    by (rule reachable.r_onConnectionCreated) (rule a)
  show "reachable twoDialogsScene"
    unfolding twoDialogsScene_def by (rule reachable.r_openDialog) (rule b)
qed

lemma twoDialogsScene_fields:
  "dialogs (onConnectionCreated connAB annotatedScene) = fmupd connAC (selectDialog, ''H'') fmempty"
  "fmlookup (dialogs (onConnectionCreated connAB annotatedScene)) connAB = None"
  "getConnections (onConnectionCreated connAB annotatedScene) =
     {#\<lparr>connectionId = connAC, nodeIdOut = 1, nodeIdIn = 3, portTypeIn = In, portTypeOut = Out,
        templateName = ''H''\<rparr>#}"
  "m_record (onConnectionCreated connAB annotatedScene) = templatesH"
  "nextHandle (onConnectionCreated connAB annotatedScene) = 7"
proof -
  have ne: "connAC \<noteq> connAB"
    by (simp add: connAC_def connAB_def)
  show d: "dialogs (onConnectionCreated connAB annotatedScene) = fmupd connAC (selectDialog, ''H'') fmempty"
    by (simp add: onConnectionCreated_fields annotatedScene_fields)
  show "fmlookup (dialogs (onConnectionCreated connAB annotatedScene)) connAB = None"
    using ne by (simp add: d)
  show "getConnections (onConnectionCreated connAB annotatedScene) =
     {#\<lparr>connectionId = connAC, nodeIdOut = 1, nodeIdIn = 3, portTypeIn = In, portTypeOut = Out,
        templateName = ''H''\<rparr>#}"
    using getConnections_same [of "onConnectionCreated connAB annotatedScene" annotatedScene]
    by (simp add: onConnectionCreated_fields annotatedScene_getConnections)
  show "m_record (onConnectionCreated connAB annotatedScene) = templatesH"
    by (simp add: onConnectionCreated_def case_prod_unfold Let_def annotatedScene_def
        getRecordTemplates_def connectedScene_fields)
  show "nextHandle (onConnectionCreated connAB annotatedScene) = 7"
    by (simp add: onConnectionCreated_fields annotatedScene_fields)
qed

section \<open>Properties\<close>

subsection \<open>Creation notifications for an id that has a proxy\<close>

text \<open>
  The scene built for the model A, B, C holds node object 0 for node A and connection
  object 3 for the connection A to C. A further \<open>onNodeCreated\<close> for A, and a further
  \<open>onConnectionCreated\<close> for the connection, store the newly constructed object 4
  in their place: the stored proxy is replaced, not kept.
\<close>

theorem redundant_creation_not_skipped_counterexample:
  "nodeGraphicsObjects (BasicGraphicsScene modelABC) 1 = Some \<lparr>ngoHandle = 0, ngoNodeId = 1\<rparr>
   \<and> nodeGraphicsObjects (onNodeCreated 1 (BasicGraphicsScene modelABC)) 1 = Some \<lparr>ngoHandle = 4, ngoNodeId = 1\<rparr>
   \<and> nodeGraphicsObjects (onNodeCreated 1 (BasicGraphicsScene modelABC)) 1
       \<noteq> nodeGraphicsObjects (BasicGraphicsScene modelABC) 1
   \<and> connectionGraphicsObjects (BasicGraphicsScene modelABC) connAC =
       Some \<lparr>cgoHandle = 3, connectionId_of = connAC, doubleClicked = [], positionChanged = []\<rparr>
   \<and> connectionGraphicsObjects (onConnectionCreated connAC (BasicGraphicsScene modelABC)) connAC =
       Some \<lparr>cgoHandle = 4, connectionId_of = connAC, doubleClicked = [connAC], positionChanged = []\<rparr>
   \<and> connectionGraphicsObjects (onConnectionCreated connAC (BasicGraphicsScene modelABC)) connAC
       \<noteq> connectionGraphicsObjects (BasicGraphicsScene modelABC) connAC"
  using BasicGraphicsScene_modelABC_nodes(1) BasicGraphicsScene_modelABC_connections(1,3)
  by (simp add: onConnectionCreated_fields)

text \<open>
  C1, as the code has it. In a reachable scene, a creation notification for an id that
  already has a proxy replaces that proxy: the map then holds, for this id, the object
  constructed by this call, whose handle is new (the old proxy's handle is smaller); the
  keys of the map and the entries of all other ids are unchanged. This holds for
  \<open>onNodeCreated\<close> and the node map and for \<open>onConnectionCreated\<close> and the connection
  map.
\<close>

theorem redundant_creation_replaces_proxy:
  assumes "reachable s"
  shows "(nodeGraphicsObjects s nodeId = Some old \<longrightarrow>
            nodeGraphicsObjects (onNodeCreated nodeId s) nodeId =
              Some \<lparr>ngoHandle = nextHandle s, ngoNodeId = nodeId\<rparr>
            \<and> ngoHandle old < nextHandle s
            \<and> dom (nodeGraphicsObjects (onNodeCreated nodeId s)) = dom (nodeGraphicsObjects s)
            \<and> (\<forall>n. n \<noteq> nodeId \<longrightarrow>
                  nodeGraphicsObjects (onNodeCreated nodeId s) n = nodeGraphicsObjects s n))
       \<and> (connectionGraphicsObjects s cid = Some oldc \<longrightarrow>
            connectionGraphicsObjects (onConnectionCreated cid s) cid =
              Some \<lparr>cgoHandle = nextHandle s, connectionId_of = cid,
                    doubleClicked = [cid], positionChanged = []\<rparr>
            \<and> cgoHandle oldc < nextHandle s
            \<and> dom (connectionGraphicsObjects (onConnectionCreated cid s)) = dom (connectionGraphicsObjects s)
            \<and> (\<forall>c. c \<noteq> cid \<longrightarrow>
                  connectionGraphicsObjects (onConnectionCreated cid s) c = connectionGraphicsObjects s c))"
proof -
  from assms have h: "handles_allocated s"
    by (rule reachable_handles_allocated)
  have n: "ngoHandle old < nextHandle s" if "nodeGraphicsObjects s nodeId = Some old"
    using h that by (simp add: handles_allocated_def)
  have c: "cgoHandle oldc < nextHandle s" if "connectionGraphicsObjects s cid = Some oldc"
    using h that by (simp add: handles_allocated_def)
  show ?thesis
    using n c by (auto simp: onConnectionCreated_fields)
qed

theorem redundant_creation_replaces_proxy_witness:
  "reachable (BasicGraphicsScene modelABC)
   \<and> nodeGraphicsObjects (BasicGraphicsScene modelABC) 1 = Some \<lparr>ngoHandle = 0, ngoNodeId = 1\<rparr>
   \<and> nodeGraphicsObjects (onNodeCreated 1 (BasicGraphicsScene modelABC)) 1 = Some \<lparr>ngoHandle = 4, ngoNodeId = 1\<rparr>
   \<and> dom (nodeGraphicsObjects (onNodeCreated 1 (BasicGraphicsScene modelABC)))
       = dom (nodeGraphicsObjects (BasicGraphicsScene modelABC))
   \<and> connectionGraphicsObjects (BasicGraphicsScene modelABC) connAC =
       Some \<lparr>cgoHandle = 3, connectionId_of = connAC, doubleClicked = [], positionChanged = []\<rparr>
   \<and> connectionGraphicsObjects (onConnectionCreated connAC (BasicGraphicsScene modelABC)) connAC =
       Some \<lparr>cgoHandle = 4, connectionId_of = connAC, doubleClicked = [connAC], positionChanged = []\<rparr>
   \<and> dom (connectionGraphicsObjects (onConnectionCreated connAC (BasicGraphicsScene modelABC)))
       = dom (connectionGraphicsObjects (BasicGraphicsScene modelABC))"
proof -
  have r: "reachable (BasicGraphicsScene modelABC)"
    by (rule reachable.r_constructor)
  show ?thesis
    using r BasicGraphicsScene_modelABC_nodes(1) BasicGraphicsScene_modelABC_connections(1,3)
      redundant_creation_replaces_proxy [OF r, of 1 "\<lparr>ngoHandle = 0, ngoNodeId = 1\<rparr>" connAC
        "\<lparr>cgoHandle = 3, connectionId_of = connAC, doubleClicked = [], positionChanged = []\<rparr>"]
    by simp
qed

subsection \<open>Annotations across a reset\<close>

text \<open>
  C2. Evaluated on the annotated scene, reset against a model that no longer has the
  connection: the connection has no proxy afterwards, but its dialog entry and its entry
  in the text item table remain, \<open>getConnections\<close> still reports it, and the text item
  the table points to has been deleted by the reset, so that a later
  \<open>onConnectionDeleted\<close> deletes it once more, a use after free.
\<close>

theorem onModelReset_keeps_dialog_and_label:
  "connectionGraphicsObjects annotatedScene connAC \<noteq> None
   \<and> connectionGraphicsObjects (onModelReset modelABC_unconnected annotatedScene) connAC = None
   \<and> dialogs (onModelReset modelABC_unconnected annotatedScene) =
       fmupd connAC (\<lparr>dlgHandle = 4, windowTitle = ''Select template'', isModal = True,
                       listWidget = [''H'']\<rparr>, ''H'') fmempty
   \<and> textItems (onModelReset modelABC_unconnected annotatedScene) connAC = Some 5
   \<and> sceneTextItems (onModelReset modelABC_unconnected annotatedScene) 5 = None
   \<and> getConnections (onModelReset modelABC_unconnected annotatedScene) =
       {#\<lparr>connectionId = connAC, nodeIdOut = 1, nodeIdIn = 3, portTypeIn = In, portTypeOut = Out,
          templateName = ''H''\<rparr>#}
   \<and> onConnectionDeleted connAC (onModelReset modelABC_unconnected annotatedScene) = Inl (UseAfterFree 5)"
proof -
  let ?r = "onModelReset modelABC_unconnected annotatedScene"
  have r: "?r = resetScene"
    by (simp add: resetScene_def)
  have g: "getConnections ?r = getConnections annotatedScene"
    by (rule getConnections_same) simp
  have d: "onConnectionDeleted connAC ?r = Inl (UseAfterFree 5)"
    unfolding r by (simp add: onConnectionDeleted_Inl resetScene_fields)
  show ?thesis
    using d g
    by (simp add: annotatedScene_fields annotatedScene_getConnections selectDialog_def
        resetScene_fields [unfolded resetScene_def])
qed

subsection \<open>The modified notification\<close>

text \<open>
  C3. Evaluated on the scene built for the three unconnected nodes:
  \<open>onConnectionCreated\<close> for the connection A to C constructs the connection object
  and updates the two end nodes, and emits no \<open>modified\<close>.
\<close>

theorem onConnectionCreated_emits_no_modified:
  "effects connectedScene =
     [NewNodeGraphicsObject 0 1, NewNodeGraphicsObject 1 2, NewNodeGraphicsObject 2 3,
      NewConnectionGraphicsObject 3 connAC, NodeUpdate 0, NodeUpdate 2]
   \<and> Modified \<notin> set (effects connectedScene)"
  by (simp add: connectedScene_effects)

subsection \<open>Changing the orientation\<close>

text \<open>
  C4. \<open>setOrientation\<close> with the current orientation returns the scene unchanged. With
  the other orientation it stores the orientation and the matching node geometry and
  resets: afterwards the node map holds exactly the nodes the model enumerates and the
  connection map exactly the outgoing connections the model reports, and every object
  in either map was constructed during this call.
\<close>

theorem setOrientation_noop_or_reset:
  "(orientation s = v \<longrightarrow> setOrientation g v s = s)
   \<and> (orientation s \<noteq> v \<longrightarrow>
        orientation (setOrientation g v s) = v
        \<and> nodeGeometry (setOrientation g v s) =
            (case v of Horizontal \<Rightarrow> DefaultHorizontalNodeGeometry | Vertical \<Rightarrow> DefaultVerticalNodeGeometry)
        \<and> dom (nodeGraphicsObjects (setOrientation g v s)) = set (allNodeIds g)
        \<and> dom (connectionGraphicsObjects (setOrientation g v s)) = set (allOutConnections g)
        \<and> (\<forall>n obj. nodeGraphicsObjects (setOrientation g v s) n = Some obj \<longrightarrow> nextHandle s \<le> ngoHandle obj)
        \<and> (\<forall>c obj. connectionGraphicsObjects (setOrientation g v s) c = Some obj \<longrightarrow> nextHandle s \<le> cgoHandle obj))"
proof (cases "orientation s = v")
  case True
  then show ?thesis by (simp add: setOrientation_def)
next
  case False
  let ?s' = "s\<lparr>orientation := v,
                nodeGeometry := (case v of Horizontal \<Rightarrow> DefaultHorizontalNodeGeometry
                                 | Vertical \<Rightarrow> DefaultVerticalNodeGeometry)\<rparr>"
  have eq: "setOrientation g v s = onModelReset g ?s'"
    using False by (simp add: setOrientation_def)
  have n: "\<And>n obj. nodeGraphicsObjects (onModelReset g ?s') n = Some obj \<Longrightarrow> nextHandle s \<le> ngoHandle obj"
    using onModelReset_new_nodes [of g ?s'] by simp
  have c: "\<And>c obj. connectionGraphicsObjects (onModelReset g ?s') c = Some obj \<Longrightarrow> nextHandle s \<le> cgoHandle obj"
    using onModelReset_new_connections [of g ?s'] by simp
  show ?thesis
    using False n c by (simp add: eq onModelReset_dom)
qed

theorem setOrientation_noop_or_reset_witness:
  "orientation (BasicGraphicsScene modelABC) = Horizontal
   \<and> setOrientation modelABC Horizontal (BasicGraphicsScene modelABC) = BasicGraphicsScene modelABC
   \<and> orientation (setOrientation modelABC Vertical (BasicGraphicsScene modelABC)) = Vertical
   \<and> nodeGeometry (setOrientation modelABC Vertical (BasicGraphicsScene modelABC)) = DefaultVerticalNodeGeometry
   \<and> dom (nodeGraphicsObjects (setOrientation modelABC Vertical (BasicGraphicsScene modelABC))) = {1, 2, 3}
   \<and> dom (connectionGraphicsObjects (setOrientation modelABC Vertical (BasicGraphicsScene modelABC))) = {connAC}"
  using setOrientation_noop_or_reset [of "BasicGraphicsScene modelABC" Horizontal modelABC]
    setOrientation_noop_or_reset [of "BasicGraphicsScene modelABC" Vertical modelABC]
  by (simp add: BasicGraphicsScene_def modelABC_enum)

subsection \<open>Order of the full traversal\<close>

text \<open>
  The traversal does not look at the end nodes of the connections it finds. For the model
  whose only node A reports a connection to a node 9 that the model does not enumerate,
  the connection object is constructed and registered although no node object for 9
  exists, then or later.
\<close>

theorem traversal_dangling_endpoint_counterexample:
  "effects (BasicGraphicsScene modelDangling) =
     [NewNodeGraphicsObject 0 1, NewConnectionGraphicsObject 1 connA9]
   \<and> connectionGraphicsObjects (BasicGraphicsScene modelDangling) connA9 =
       Some \<lparr>cgoHandle = 1, connectionId_of = connA9, doubleClicked = [], positionChanged = []\<rparr>
   \<and> inNodeId connA9 = 9
   \<and> nodeGraphicsObjects (BasicGraphicsScene modelDangling) 9 = None"
proof -
  have u: "[0..<1] = [0::nat]" "[1..<2] = [1::nat]"
    by (simp_all add: upt_rec)
  have e: "effects (BasicGraphicsScene modelDangling) =
     [NewNodeGraphicsObject 0 1, NewConnectionGraphicsObject 1 connA9]"
    by (simp add: BasicGraphicsScene_def traverse_effects modelABC_enum u)
  have c: "connectionGraphicsObjects (BasicGraphicsScene modelDangling) connA9 =
       Some \<lparr>cgoHandle = 1, connectionId_of = connA9, doubleClicked = [], positionChanged = []\<rparr>"
    by (simp add: BasicGraphicsScene_def traverse_connections modelABC_enum)
  have n: "nodeGraphicsObjects (BasicGraphicsScene modelDangling) 9 = None"
    by (simp add: BasicGraphicsScene_def modelABC_enum)
  show ?thesis
    using e c n by (simp add: connA9_def)
qed

text \<open>
  C5, as the code has it. The traversal is two passes. The first constructs and registers
  a node object for every node the model enumerates, in that order: step \<open>i\<close> registers,
  for the \<open>i\<close>-th node, the object with the \<open>i\<close>-th new handle. The second goes through
  the nodes in the same order and their outgoing ports in ascending index order and, for
  every connection id found, constructs and registers a connection object. In the scene
  in which the \<open>k\<close>-th connection object is constructed the node map is already the final
  one and holds a node object for every enumerated node; so each end node of the
  connection that the model enumerates has its node object by then. The effects list the
  constructions in this order.
\<close>

theorem traversal_two_passes:
  "traverseGraphAndPopulateGraphicsObjects g s =
     fold insertConnection (allOutConnections g) (fold insertNode (allNodeIds g) s)
   \<and> allOutConnections g =
       concat (map (\<lambda>nodeId. concat (map (\<lambda>index. connections g nodeId Out index)
                                          [0..<nodeData_OutPortCount g nodeId]))
                   (allNodeIds g))
   \<and> effects (traverseGraphAndPopulateGraphicsObjects g s) =
       effects s
       @ map (\<lambda>(h, n). NewNodeGraphicsObject h n)
           (zip [nextHandle s..<nextHandle s + length (allNodeIds g)] (allNodeIds g))
       @ map (\<lambda>(h, c). NewConnectionGraphicsObject h c)
           (zip [nextHandle s + length (allNodeIds g)..<
                 nextHandle s + length (allNodeIds g) + length (allOutConnections g)]
                (allOutConnections g))
   \<and> (i < length (allNodeIds g) \<longrightarrow>
        nodeGraphicsObjects (fold insertNode (take (Suc i) (allNodeIds g)) s) (allNodeIds g ! i) =
          Some \<lparr>ngoHandle = nextHandle s + i, ngoNodeId = allNodeIds g ! i\<rparr>)
   \<and> (k < length (allOutConnections g) \<longrightarrow>
        (let sk = fold insertConnection (take k (allOutConnections g)) (fold insertNode (allNodeIds g) s);
             c = allOutConnections g ! k
         in fold insertConnection (take (Suc k) (allOutConnections g)) (fold insertNode (allNodeIds g) s)
              = insertConnection c sk
            \<and> connectionGraphicsObjects (insertConnection c sk) c =
                Some \<lparr>cgoHandle = nextHandle s + length (allNodeIds g) + k, connectionId_of = c,
                      doubleClicked = [], positionChanged = []\<rparr>
            \<and> nodeGraphicsObjects sk = nodeGraphicsObjects (traverseGraphAndPopulateGraphicsObjects g s)
            \<and> (\<forall>n \<in> set (allNodeIds g). \<exists>j<length (allNodeIds g). allNodeIds g ! j = n \<and>
                  nodeGraphicsObjects sk n = Some \<lparr>ngoHandle = nextHandle s + j, ngoNodeId = n\<rparr>)
            \<and> (outNodeId c \<in> set (allNodeIds g) \<longrightarrow> nodeGraphicsObjects sk (outNodeId c) \<noteq> None)
            \<and> (inNodeId c \<in> set (allNodeIds g) \<longrightarrow> nodeGraphicsObjects sk (inNodeId c) \<noteq> None)))
   \<and> dom (nodeGraphicsObjects (traverseGraphAndPopulateGraphicsObjects g s)) =
       dom (nodeGraphicsObjects s) \<union> set (allNodeIds g)
   \<and> dom (connectionGraphicsObjects (traverseGraphAndPopulateGraphicsObjects g s)) =
       dom (connectionGraphicsObjects s) \<union> set (allOutConnections g)"
proof -
  let ?ns = "allNodeIds g" and ?cs = "allOutConnections g"
  let ?s1 = "fold insertNode ?ns s"
  let ?t = "traverseGraphAndPopulateGraphicsObjects g s"
  have c1: "?t = fold insertConnection ?cs ?s1"
    by (rule traverse_eq)
  have c2: "allOutConnections g =
       concat (map (\<lambda>nodeId. concat (map (\<lambda>index. connections g nodeId Out index)
                                          [0..<nodeData_OutPortCount g nodeId]))
                   (allNodeIds g))"
    by (simp add: allOutConnections_def outConnections_def [abs_def])
  note c3 = traverse_effects [of g s]
  have c4: "i < length ?ns \<longrightarrow>
        nodeGraphicsObjects (fold insertNode (take (Suc i) ?ns) s) (?ns ! i) =
          Some \<lparr>ngoHandle = nextHandle s + i, ngoNodeId = ?ns ! i\<rparr>"
    by (simp add: fold_insertNode_step)
  have reg: "\<exists>j<length ?ns. ?ns ! j = n \<and>
      nodeGraphicsObjects ?s1 n = Some \<lparr>ngoHandle = nextHandle s + j, ngoNodeId = n\<rparr>"
    if "n \<in> set ?ns" for n
    using that by (rule fold_insertNode_registered)
  have ex: "nodeGraphicsObjects ?s1 n \<noteq> None" if "n \<in> set ?ns" for n
    using reg [OF that] by auto
  have c5: "k < length ?cs \<longrightarrow>
        (let sk = fold insertConnection (take k ?cs) ?s1; c = ?cs ! k
         in fold insertConnection (take (Suc k) ?cs) ?s1 = insertConnection c sk
            \<and> connectionGraphicsObjects (insertConnection c sk) c =
                Some \<lparr>cgoHandle = nextHandle s + length ?ns + k, connectionId_of = c,
                      doubleClicked = [], positionChanged = []\<rparr>
            \<and> nodeGraphicsObjects sk = nodeGraphicsObjects ?t
            \<and> (\<forall>n \<in> set ?ns. \<exists>j<length ?ns. ?ns ! j = n \<and>
                  nodeGraphicsObjects sk n = Some \<lparr>ngoHandle = nextHandle s + j, ngoNodeId = n\<rparr>)
            \<and> (outNodeId c \<in> set ?ns \<longrightarrow> nodeGraphicsObjects sk (outNodeId c) \<noteq> None)
            \<and> (inNodeId c \<in> set ?ns \<longrightarrow> nodeGraphicsObjects sk (inNodeId c) \<noteq> None))"
  proof
    assume k: "k < length ?cs"
    show "let sk = fold insertConnection (take k ?cs) ?s1; c = ?cs ! k
         in fold insertConnection (take (Suc k) ?cs) ?s1 = insertConnection c sk
            \<and> connectionGraphicsObjects (insertConnection c sk) c =
                Some \<lparr>cgoHandle = nextHandle s + length ?ns + k, connectionId_of = c,
                      doubleClicked = [], positionChanged = []\<rparr>
            \<and> nodeGraphicsObjects sk = nodeGraphicsObjects ?t
            \<and> (\<forall>n \<in> set ?ns. \<exists>j<length ?ns. ?ns ! j = n \<and>
                  nodeGraphicsObjects sk n = Some \<lparr>ngoHandle = nextHandle s + j, ngoNodeId = n\<rparr>)
            \<and> (outNodeId c \<in> set ?ns \<longrightarrow> nodeGraphicsObjects sk (outNodeId c) \<noteq> None)
            \<and> (inNodeId c \<in> set ?ns \<longrightarrow> nodeGraphicsObjects sk (inNodeId c) \<noteq> None)"
      unfolding Let_def
      using fold_insertConnection_step [OF k, of ?s1] reg ex
      by simp
  qed
  have c6: "dom (nodeGraphicsObjects ?t) = dom (nodeGraphicsObjects s) \<union> set ?ns"
    by (simp add: fold_insertNode_dom)
  have c7: "dom (connectionGraphicsObjects ?t) = dom (connectionGraphicsObjects s) \<union> set ?cs"
    by (simp add: c1 fold_insertConnection_dom)
  show ?thesis
    using c1 c2 c3 c4 c5 c6 c7 by blast
qed

theorem traversal_two_passes_witness:
  "effects (BasicGraphicsScene modelABC) =
     [NewNodeGraphicsObject 0 1, NewNodeGraphicsObject 1 2, NewNodeGraphicsObject 2 3,
      NewConnectionGraphicsObject 3 connAC]
   \<and> nodeGraphicsObjects (fold insertNode [1, 2, 3] initialScene) 1 = Some \<lparr>ngoHandle = 0, ngoNodeId = 1\<rparr>
   \<and> nodeGraphicsObjects (fold insertNode [1, 2, 3] initialScene) 3 = Some \<lparr>ngoHandle = 2, ngoNodeId = 3\<rparr>
   \<and> connectionGraphicsObjects (fold insertNode [1, 2, 3] initialScene) connAC = None
   \<and> BasicGraphicsScene modelABC = insertConnection connAC (fold insertNode [1, 2, 3] initialScene)
   \<and> connectionGraphicsObjects (BasicGraphicsScene modelABC) connAC =
       Some \<lparr>cgoHandle = 3, connectionId_of = connAC, doubleClicked = [], positionChanged = []\<rparr>
   \<and> dom (nodeGraphicsObjects (BasicGraphicsScene modelABC)) = {1, 2, 3}
   \<and> dom (connectionGraphicsObjects (BasicGraphicsScene modelABC)) = {connAC}"
proof -
  have u: "[0..<3] = [0, 1, 2]" "[3..<4] = [3::nat]"
    by (simp_all add: upt_rec)
  show ?thesis
    using traversal_two_passes [of modelABC initialScene 0 0]
    by (simp add: BasicGraphicsScene_def modelABC_enum u connAC_def Let_def)
qed

subsection \<open>Deleting twice\<close>



subsection \<open>The draft connection\<close>

text \<open>
  C7. The scene holds at most one draft connection. After two
  \<open>makeDraftConnection\<close> calls the draft is the object constructed by the second call,
  for the second connection id; \<open>resetDraftConnection\<close> always leaves no draft, and
  changes nothing when there was none.
\<close>

theorem draft_last_call_wins:
  "draftConnection (makeDraftConnection y (makeDraftConnection x s)) =
     Some \<lparr>cgoHandle = Suc (nextHandle s), connectionId_of = y, doubleClicked = [], positionChanged = []\<rparr>
   \<and> draftConnection (resetDraftConnection s) = None
   \<and> (draftConnection s = None \<longrightarrow> resetDraftConnection s = s)"
  by (simp add: resetDraftConnection_def)

theorem draft_last_call_wins_witness:
  "draftConnection initialScene = None
   \<and> resetDraftConnection initialScene = initialScene
   \<and> draftConnection (resetDraftConnection (makeDraftConnection connAC initialScene)) = None
   \<and> draftConnection (makeDraftConnection connAC (makeDraftConnection (connAC\<lparr>inNodeId := 2\<rparr>) initialScene)) =
       Some \<lparr>cgoHandle = 1, connectionId_of = connAC, doubleClicked = [], positionChanged = []\<rparr>"
  using draft_last_call_wins [of connAC "connAC\<lparr>inNodeId := 2\<rparr>" initialScene]
    draft_last_call_wins [of connAC connAC "makeDraftConnection connAC initialScene"]
  by (simp add: initialScene_def)

subsection \<open>Node moved\<close>

text \<open>
  C8. A position update for a node that has a proxy arms \<open>nodeDrag\<close> and never emits
  \<open>nodeMoved\<close>. A click emits \<open>nodeMoved\<close> with the model's position of the clicked
  node, followed by \<open>modified\<close>, exactly when the flag is armed, and always clears the
  flag; a second click right after emits nothing. So a gesture that starts with the flag
  clear, runs through any number of position updates and ends with a click emits
  \<open>nodeMoved\<close> once if one of the updates was for a node with a proxy, and not at all
  otherwise.
\<close>

theorem nodeMoved_two_step_protocol:
  "(nodeGraphicsObjects s nodeId \<noteq> None \<longrightarrow> nodeDrag (onNodePositionUpdated g nodeId s))
   \<and> filter is_NodeMoved (effects (onNodePositionUpdated g nodeId s)) = filter is_NodeMoved (effects s)
   \<and> effects (onNodeClicked g nodeId s) =
       effects s @ (if nodeDrag s then [NodeMoved nodeId (nodeData_Position g nodeId), Modified] else [])
   \<and> \<not> nodeDrag (onNodeClicked g nodeId s)
   \<and> effects (onNodeClicked g' nodeId' (onNodeClicked g nodeId s)) = effects (onNodeClicked g nodeId s)
   \<and> (\<not> nodeDrag s \<longrightarrow>
        filter is_NodeMoved (effects (onNodeClicked g nodeId (positionUpdates us s))) =
          filter is_NodeMoved (effects s)
          @ (if \<exists>u \<in> set us. nodeGraphicsObjects s (snd u) \<noteq> None
             then [NodeMoved nodeId (nodeData_Position g nodeId)] else []))"
  by (simp split: option.splits)

theorem nodeMoved_two_step_protocol_witness:
  "nodeGraphicsObjects (BasicGraphicsScene modelABC) 1 \<noteq> None
   \<and> \<not> nodeDrag (BasicGraphicsScene modelABC)
   \<and> nodeDrag (onNodePositionUpdated modelABC 1 (BasicGraphicsScene modelABC))
   \<and> filter is_NodeMoved (effects (onNodeClicked modelABC 1 (BasicGraphicsScene modelABC))) = []
   \<and> filter is_NodeMoved
       (effects (onNodeClicked modelABC 1
          (positionUpdates [(modelABC, 1), (modelABC, 1)] (BasicGraphicsScene modelABC)))) =
       [NodeMoved 1 origin]"
proof -
  have p: "nodeData_Position modelABC 1 = origin"
    by (simp add: modelABC_def)
  have e: "filter is_NodeMoved (effects (BasicGraphicsScene modelABC)) = []"
    by (simp add: BasicGraphicsScene_def traverse_no_NodeMoved)
  have d: "\<not> nodeDrag (BasicGraphicsScene modelABC)"
    by (simp add: BasicGraphicsScene_def)
  show ?thesis
    using p e d BasicGraphicsScene_modelABC_nodes(1)
      nodeMoved_two_step_protocol [of "BasicGraphicsScene modelABC" 1 modelABC modelABC 1
        "[(modelABC, 1), (modelABC, 1)]"]
      nodeMoved_two_step_protocol [of "BasicGraphicsScene modelABC" 1 modelABC modelABC 1 "[]"]
    by simp
qed

subsection \<open>Labels\<close>

text \<open>
  In the annotated scene a second notification that the connection A to C was created
  replaces its proxy by a new object, to whose position signal nothing is connected. The
  label of the connection is still alive and still in the text item table; when the new
  proxy reports the incoming endpoint (100, 20) the label stays at (-50, 1), which is
  not the offset from that endpoint.
\<close>

theorem replaced_proxy_leaves_label_counterexample:
  "reachable movedScene
   \<and> textItems movedScene connAC = Some 5
   \<and> sceneTextItems movedScene 5 =
       Some \<lparr>toPlainText = ''H'', pos = \<lparr>xp = - 50, yp = 1\<rparr>, defaultTextColor = white,
             font = (''Arial'', 10)\<rparr>
   \<and> connectionGraphicsObjects movedScene connAC =
       Some \<lparr>cgoHandle = 6, connectionId_of = connAC, doubleClicked = [connAC], positionChanged = []\<rparr>
   \<and> endPointIn movedScene 6 = \<lparr>xp = 100, yp = 20\<rparr>
   \<and> \<lparr>xp = - 50, yp = 1\<rparr> \<noteq> \<lparr>xp = 100 - 50, yp = 20 + (1::real)\<rparr>"
  by (simp add: reachable_examples movedScene_fields labelH_def)

text \<open>
  C9, as the code has it. In a reachable scene every label that is alive and connected to
  the position signal of a connection proxy in the registry sits 50 to the left of and 1
  below that proxy's incoming endpoint. \<open>addTextUnderConnection\<close> creates the label at
  that offset from the endpoint of the proxy then registered for the connection and
  connects it to that proxy. When that proxy reports a new endpoint, each label connected
  to it and alive is put at the offset from the new endpoint; the lambda that does so
  touches nothing else of the label, and when the label is no longer alive it changes
  nothing. A label that is not connected to the reporting proxy is not moved, and a
  repeated creation notification puts a proxy in the registry to which no label is
  connected, while the labels and the text item table stay as they are.
\<close>

theorem label_follows_incoming_endpoint:
  assumes "reachable s"
  shows "(connectionGraphicsObjects s cid = Some co \<and> t \<in> set (positionChanged co)
          \<and> sceneTextItems s t = Some item \<longrightarrow>
            pos item = \<lparr>xp = xp (endPointIn s (cgoHandle co)) - 50,
                        yp = yp (endPointIn s (cgoHandle co)) + 1\<rparr>
            \<and> sceneTextItems (connection_positionChanged cid p s) t =
                Some (item\<lparr>pos := \<lparr>xp = xp p - 50, yp = yp p + 1\<rparr>\<rparr>))
       \<and> (connectionGraphicsObjects s cid = Some co \<longrightarrow>
            textItems (addTextUnderConnection cid templateText s) cid = Some (nextHandle s)
            \<and> sceneTextItems (addTextUnderConnection cid templateText s) (nextHandle s) =
                Some \<lparr>toPlainText = templateText,
                      pos = \<lparr>xp = xp (endPointIn s (cgoHandle co)) - 50,
                             yp = yp (endPointIn s (cgoHandle co)) + 1\<rparr>,
                      defaultTextColor = white, font = (''Arial'', 10)\<rparr>
            \<and> connectionGraphicsObjects (addTextUnderConnection cid templateText s) cid =
                Some (co\<lparr>positionChanged := positionChanged co @ [nextHandle s]\<rparr>))
       \<and> (sceneTextItems s textItemPtr = Some item' \<longrightarrow>
            sceneTextItems (positionChanged_slot textItemPtr connectionObject s) =
              (sceneTextItems s)(textItemPtr \<mapsto>
                 item'\<lparr>pos := \<lparr>xp = xp (endPointIn s connectionObject) - 50,
                                yp = yp (endPointIn s connectionObject) + 1\<rparr>\<rparr>)
            \<and> endPointIn (positionChanged_slot textItemPtr connectionObject s) = endPointIn s)
       \<and> (sceneTextItems s textItemPtr = None \<longrightarrow>
            positionChanged_slot textItemPtr connectionObject s = s)
       \<and> (connectionGraphicsObjects s cid = Some co \<and> t \<notin> set (positionChanged co) \<longrightarrow>
            sceneTextItems (connection_positionChanged cid p s) t = sceneTextItems s t)
       \<and> connectionGraphicsObjects (onConnectionCreated cid s) cid =
            Some \<lparr>cgoHandle = nextHandle s, connectionId_of = cid, doubleClicked = [cid],
                  positionChanged = []\<rparr>
       \<and> sceneTextItems (onConnectionCreated cid s) = sceneTextItems s
       \<and> textItems (onConnectionCreated cid s) = textItems s"
proof -
  from assms have "labels_in_place s"
    using reachable_labels by blast
  then have place: "pos item = labelPosition (endPointIn s (cgoHandle co))"
    if "connectionGraphicsObjects s cid = Some co" "t \<in> set (positionChanged co)"
      "sceneTextItems s t = Some item"
    using that unfolding labels_in_place_def by blast
  have moved: "sceneTextItems (connection_positionChanged cid p s) t = Some (item\<lparr>pos := labelPosition p\<rparr>)"
    if "connectionGraphicsObjects s cid = Some co" "t \<in> set (positionChanged co)"
      "sceneTextItems s t = Some item"
    using that by (rule connection_positionChanged_moves_labels)
  have others: "sceneTextItems (connection_positionChanged cid p s) t = sceneTextItems s t"
    if "connectionGraphicsObjects s cid = Some co" "t \<notin> set (positionChanged co)"
    using that by (rule connection_positionChanged_others)
  show ?thesis
    using place moved others
    by (simp add: addTextUnderConnection_present positionChanged_slot_live positionChanged_slot_dead
        labelPosition_eq onConnectionCreated_fields)
qed

theorem label_follows_incoming_endpoint_witness:
  "reachable annotatedScene
   \<and> connectionGraphicsObjects annotatedScene connAC =
       Some \<lparr>cgoHandle = 3, connectionId_of = connAC, doubleClicked = [connAC], positionChanged = [5]\<rparr>
   \<and> sceneTextItems annotatedScene 5 =
       Some \<lparr>toPlainText = ''H'', pos = \<lparr>xp = - 50, yp = 1\<rparr>, defaultTextColor = white,
             font = (''Arial'', 10)\<rparr>
   \<and> endPointIn annotatedScene 3 = \<lparr>xp = 0, yp = 0\<rparr>
   \<and> sceneTextItems (connection_positionChanged connAC \<lparr>xp = 100, yp = 20\<rparr> annotatedScene) 5 =
       Some \<lparr>toPlainText = ''H'', pos = \<lparr>xp = 50, yp = 21\<rparr>, defaultTextColor = white,
             font = (''Arial'', 10)\<rparr>
   \<and> sceneTextItems (addTextUnderConnection connAC ''H'' annotatedScene) 6 =
       Some \<lparr>toPlainText = ''H'', pos = \<lparr>xp = - 50, yp = 1\<rparr>, defaultTextColor = white,
             font = (''Arial'', 10)\<rparr>
   \<and> sceneTextItems annotatedScene 6 = None
   \<and> positionChanged_slot 6 3 annotatedScene = annotatedScene"
proof -
  have e: "endPointIn annotatedScene 3 = \<lparr>xp = 0, yp = 0\<rparr>"
    by (simp add: annotatedScene_fields connectedScene_fields origin_def)
  note d = annotatedScene_fields(8)
  show ?thesis
    using e d reachable_examples(2) annotatedScene_fields(1,4,5)
      label_follows_incoming_endpoint [OF reachable_examples(2), of connAC
        "\<lparr>cgoHandle = 3, connectionId_of = connAC, doubleClicked = [connAC], positionChanged = [5]\<rparr>"
        5 labelH "\<lparr>xp = 100, yp = 20\<rparr>" "''H''" 6 labelH 3]
    by (simp add: labelH_def)
qed

subsection \<open>The annotated connections\<close>

text \<open>
  C10. \<open>getConnections\<close> returns exactly one entry for each connection id of the dialog
  map and no other entry. Each entry has port type \<open>Out\<close> on the outgoing and \<open>In\<close> on
  the incoming side, the two node ids of its connection id, and the template name stored
  with the dialog. A dialog that has just been opened for a connection without one is
  reported with the empty name, next to the entries there were, and accepting a dialog
  with no row selected changes nothing in the report.
\<close>

theorem getConnections_one_entry_per_dialog:
  "image_mset connectionId (getConnections s) = mset_set (fmdom' (dialogs s))
   \<and> count (image_mset connectionId (getConnections s)) c = (if c \<in> fmdom' (dialogs s) then 1 else 0)
   \<and> (\<forall>e \<in># getConnections s.
        portTypeOut e = Out \<and> portTypeIn e = In
        \<and> nodeIdOut e = outNodeId (connectionId e) \<and> nodeIdIn e = inNodeId (connectionId e)
        \<and> map_option snd (fmlookup (dialogs s) (connectionId e)) = Some (templateName e))
   \<and> (fmlookup (dialogs s) cid = None \<longrightarrow>
        getConnections (openDialog cid s) =
          add_mset \<lparr>connectionId = cid, nodeIdOut = outNodeId cid, nodeIdIn = inNodeId cid,
                    portTypeIn = In, portTypeOut = Out, templateName = ''''\<rparr> (getConnections s))
   \<and> getConnections (okButton_clicked getColorForHeader cid None s) = getConnections s"
proof -
  have k: "image_mset connectionId (getConnections s) = mset_set (fmdom' (dialogs s))"
    by (rule getConnections_keys)
  have f: "finite (fmdom' (dialogs s))"
    by simp
  have n: "count (mset_set (fmdom' (dialogs s))) c = (if c \<in> fmdom' (dialogs s) then 1 else 0)"
    using f by (simp add: count_mset_set')
  have o: "getConnections (openDialog cid s) =
          add_mset \<lparr>connectionId = cid, nodeIdOut = outNodeId cid, nodeIdIn = inNodeId cid,
                    portTypeIn = In, portTypeOut = Out, templateName = ''''\<rparr> (getConnections s)"
    if "fmlookup (dialogs s) cid = None"
    using getConnections_new_key [of "openDialog cid s" cid _ s] that
    by (simp add: openDialog_dialogs)
  have a: "getConnections (okButton_clicked getColorForHeader cid None s) = getConnections s"
    by (rule getConnections_same)
      (simp add: okButton_clicked_dialogs currentItem_def split: option.splits)
  show ?thesis
    using k n o a getConnections_entry [of _ s] by simp
qed

theorem getConnections_one_entry_per_dialog_witness:
  "fmlookup (dialogs (onConnectionCreated connAB annotatedScene)) connAB = None
   \<and> getConnections twoDialogsScene =
       {#\<lparr>connectionId = connAB, nodeIdOut = 1, nodeIdIn = 2, portTypeIn = In, portTypeOut = Out,
          templateName = ''''\<rparr>,
         \<lparr>connectionId = connAC, nodeIdOut = 1, nodeIdIn = 3, portTypeIn = In, portTypeOut = Out,
          templateName = ''H''\<rparr>#}
   \<and> image_mset connectionId (getConnections twoDialogsScene) = {#connAB, connAC#}
   \<and> count (image_mset connectionId (getConnections twoDialogsScene)) connAC = 1
   \<and> count (image_mset connectionId (getConnections twoDialogsScene)) connA9 = 0
   \<and> getConnections (okButton_clicked greyForAll connAB None twoDialogsScene) = getConnections twoDialogsScene"
proof -
  let ?b = "onConnectionCreated connAB annotatedScene"
  have io: "outNodeId connAB = 1" "inNodeId connAB = 2"
    by (simp_all add: connAB_def)
  have ne: "connAC \<noteq> connAB" "connA9 \<noteq> connAB" "connA9 \<noteq> connAC"
    by (simp_all add: connAC_def connAB_def connA9_def)
  have o: "getConnections twoDialogsScene =
       add_mset \<lparr>connectionId = connAB, nodeIdOut = outNodeId connAB, nodeIdIn = inNodeId connAB,
                 portTypeIn = In, portTypeOut = Out, templateName = ''''\<rparr> (getConnections ?b)"
    using getConnections_one_entry_per_dialog [of ?b connAB connAB greyForAll] twoDialogsScene_fields(2)
    unfolding twoDialogsScene_def by blast
  have g: "getConnections twoDialogsScene =
       {#\<lparr>connectionId = connAB, nodeIdOut = 1, nodeIdIn = 2, portTypeIn = In, portTypeOut = Out,
          templateName = ''''\<rparr>,
         \<lparr>connectionId = connAC, nodeIdOut = 1, nodeIdIn = 3, portTypeIn = In, portTypeOut = Out,
          templateName = ''H''\<rparr>#}"
    by (simp add: o twoDialogsScene_fields(3) io)
  have a: "getConnections (okButton_clicked greyForAll connAB None twoDialogsScene) = getConnections twoDialogsScene"
    using getConnections_one_entry_per_dialog [of twoDialogsScene connAB connAB greyForAll] by blast
  have k: "image_mset connectionId (getConnections twoDialogsScene) = {#connAB, connAC#}"
    by (simp add: g)
  have c: "count (image_mset connectionId (getConnections twoDialogsScene)) connAC = 1"
    "count (image_mset connectionId (getConnections twoDialogsScene)) connA9 = 0"
    using ne by (simp_all add: k)
  show ?thesis
    using twoDialogsScene_fields(2) g a k c by blast
qed

end
